theory Spec2Isabelle
  imports Complex_Main
begin

section \<open>Python values held by literals\<close>

text \<open>
  A literal of \<^verbatim>\<open>eql/ast.py\<close> wraps a Python value: \<^verbatim>\<open>None\<close>, a bool, a number
  (an unbounded int or a float) or a string. Floats are kept abstract: the type
  parameter \<open>'f\<close> stands for the host's floats, and every operation that touches one
  is a field of the environment below. Strings are byte strings.
\<close>

datatype 'f pynum = PInt int | PFloat 'f

datatype 'f pyval = VNone | VBool bool | VNum "'f pynum" | VStr string

datatype error =
    TypeError
  | IndexError
  | ValueError string
  | ZeroDivisionError
  | OverflowError
  | OtherError string

datatype mathop = Mul | Div | Mod | Add | Sub

datatype comparator = LT | LE | EQ | NE | GE | GT

text \<open>The outcome of \<^verbatim>\<open>func.run(*values)\<close> of a registered function signature.\<close>

datatype 'f run_result =
    Returned "'f pyval"
  | ReturnedObject
  | RaisedNotImplemented
  | Raised error

text \<open>
  What the module takes from outside: \<^verbatim>\<open>get_function\<close> of \<^verbatim>\<open>eql/functions.py\<close> (the
  registry of callable signatures, \<open>None\<close> for an unknown name), and the host's
  arithmetic and comparison on numbers as soon as a float is involved
  (\<^verbatim>\<open>operator.truediv\<close> always is: it returns a float).
\<close>

record 'f env =
  get_function :: "string \<Rightarrow> ('f pyval list \<Rightarrow> 'f run_result) option"
  float_arith :: "mathop \<Rightarrow> 'f pynum \<Rightarrow> 'f pynum \<Rightarrow> error + 'f pynum"
  float_cmp :: "comparator \<Rightarrow> 'f pynum \<Rightarrow> 'f pynum \<Rightarrow> bool"

fun int_cmp :: "comparator \<Rightarrow> int \<Rightarrow> int \<Rightarrow> bool" where
  "int_cmp LT a b = (a < b)"
| "int_cmp LE a b = (a \<le> b)"
| "int_cmp EQ a b = (a = b)"
| "int_cmp NE a b = (a \<noteq> b)"
| "int_cmp GE a b = (a \<ge> b)"
| "int_cmp GT a b = (a > b)"

fun num_cmp :: "'f env \<Rightarrow> comparator \<Rightarrow> 'f pynum \<Rightarrow> 'f pynum \<Rightarrow> bool" where
  "num_cmp env c (PInt a) (PInt b) = int_cmp c a b"
| "num_cmp env c x y = float_cmp env c x y"

text \<open>\<^verbatim>\<open>op_lookup = {'*': mul, '/': truediv, '%': mod, '+': add, '-': sub}\<close> on two numbers.\<close>

fun func :: "'f env \<Rightarrow> mathop \<Rightarrow> 'f pynum \<Rightarrow> 'f pynum \<Rightarrow> error + 'f pynum" where
  "func env Mul (PInt a) (PInt b) = Inr (PInt (a * b))"
| "func env Mod (PInt a) (PInt b) =
     (if b = 0 then Inl ZeroDivisionError else Inr (PInt (a mod b)))"
| "func env Add (PInt a) (PInt b) = Inr (PInt (a + b))"
| "func env Sub (PInt a) (PInt b) = Inr (PInt (a - b))"
| "func env op x y = float_arith env op x y"

text \<open>A bool is an int in Python: \<^verbatim>\<open>True == 1\<close>, \<^verbatim>\<open>False == 0\<close>.\<close>

fun as_num :: "'f pyval \<Rightarrow> 'f pynum option" where
  "as_num (VBool b) = Some (PInt (if b then 1 else 0))"
| "as_num (VNum n) = Some n"
| "as_num v = None"

text \<open>Python's \<^verbatim>\<open>==\<close> on two values.\<close>

fun py_eq :: "'f env \<Rightarrow> 'f pyval \<Rightarrow> 'f pyval \<Rightarrow> bool" where
  "py_eq env VNone VNone = True"
| "py_eq env (VStr s) (VStr t) = (s = t)"
| "py_eq env v w =
     (case (as_num v, as_num w) of
        (Some a, Some b) \<Rightarrow> num_cmp env EQ a b
      | _ \<Rightarrow> False)"

text \<open>Truthiness, as \<^verbatim>\<open>if other.value\<close> tests it.\<close>

fun truthy :: "'f env \<Rightarrow> 'f pyval \<Rightarrow> bool" where
  "truthy env VNone = False"
| "truthy env (VBool b) = b"
| "truthy env (VNum n) = (\<not> num_cmp env EQ n (PInt 0))"
| "truthy env (VStr s) = (s \<noteq> [])"

text \<open>Strings compare by code point, lexicographically.\<close>

fun str_lt :: "string \<Rightarrow> string \<Rightarrow> bool" where
  "str_lt [] [] = False"
| "str_lt [] (y # ys) = True"
| "str_lt (x # xs) [] = False"
| "str_lt (x # xs) (y # ys) =
     ((of_char x :: nat) < of_char y \<or> (x = y \<and> str_lt xs ys))"

fun str_cmp :: "comparator \<Rightarrow> string \<Rightarrow> string \<Rightarrow> bool" where
  "str_cmp LT s t = str_lt s t"
| "str_cmp LE s t = (s = t \<or> str_lt s t)"
| "str_cmp EQ s t = (s = t)"
| "str_cmp NE s t = (s \<noteq> t)"
| "str_cmp GE s t = (s = t \<or> str_lt t s)"
| "str_cmp GT s t = str_lt t s"

text \<open>
  \<^verbatim>\<open>func_lookup = {LT: lt, LE: le, EQ: eq, NE: ne, GE: ge, GT: gt}\<close> on two values:
  equality is total, an ordering of values that are neither both numbers nor both
  strings raises \<^verbatim>\<open>TypeError\<close>.
\<close>

definition py_compare ::
  "'f env \<Rightarrow> comparator \<Rightarrow> 'f pyval \<Rightarrow> 'f pyval \<Rightarrow> error + bool" where
  "py_compare env c v w =
     (if c = EQ then Inr (py_eq env v w)
      else if c = NE then Inr (\<not> py_eq env v w)
      else (case (as_num v, as_num w) of
              (Some a, Some b) \<Rightarrow> Inr (num_cmp env c a b)
            | _ \<Rightarrow> (case (v, w) of
                      (VStr s, VStr t) \<Rightarrow> Inr (str_cmp c s t)
                    | _ \<Rightarrow> Inl TypeError)))"

text \<open>\<^verbatim>\<open>str.lower\<close>; bytes outside \<^verbatim>\<open>A-Z\<close> are left as they are.\<close>

definition lower_char :: "char \<Rightarrow> char" where
  "lower_char c =
     (case map_of (zip ''ABCDEFGHIJKLMNOPQRSTUVWXYZ'' ''abcdefghijklmnopqrstuvwxyz'') c of
        Some d \<Rightarrow> d
      | None \<Rightarrow> c)"

definition lower :: "string \<Rightarrow> string" where
  "lower s = map lower_char s"

section \<open>The node model\<close>

text \<open>
  \<^verbatim>\<open>String\<close>, \<^verbatim>\<open>Number\<close> and \<^verbatim>\<open>Null\<close> hold a value of their own kind. A \<^verbatim>\<open>Boolean\<close> holds
  any value: \<^verbatim>\<open>Literal.__and__\<close> builds \<^verbatim>\<open>Boolean(self.value and other.value)\<close>.
\<close>

datatype 'f literal = String string | Number "'f pynum" | Boolean "'f pyval" | Null

fun literal_value :: "'f literal \<Rightarrow> 'f pyval" where
  "literal_value (String s) = VStr s"
| "literal_value (Number n) = VNum n"
| "literal_value (Boolean v) = v"
| "literal_value Null = VNone"

text \<open>A \<^verbatim>\<open>datetime.timedelta\<close>, as its total number of microseconds.\<close>

datatype timedelta = Timedelta int

datatype pathkey = Key string | Index int

text \<open>
  The expression classes. \<^verbatim>\<open>NamedSubquery(query_type, EventQuery(event_type, query))\<close>
  is \<open>NamedSubquery query_type event_type query\<close>.
\<close>

datatype 'f expr =
    Literal "'f literal"
  | TimeRange timedelta
  | Field_node string "pathkey list"
  | FunctionCall string "'f expr list" bool
  | NamedSubquery string string "'f expr"
  | MathOperation "'f expr" mathop "'f expr"
  | Comparison "'f expr" comparator "'f expr"
  | InSet "'f expr" "'f expr list"
  | Not_node "'f expr"
  | And "'f expr list"
  | Or "'f expr list"

abbreviation Bool_node :: "bool \<Rightarrow> 'f expr" where
  "Bool_node b \<equiv> Literal (Boolean (VBool b))"

fun is_Literal :: "'f expr \<Rightarrow> bool" where
  "is_Literal (Literal l) = True"
| "is_Literal e = False"

subsection \<open>Structural equality: \<^verbatim>\<open>BaseNode.__eq__\<close>\<close>

fun literal_eq :: "'f env \<Rightarrow> 'f literal \<Rightarrow> 'f literal \<Rightarrow> bool" where
  "literal_eq env (String s) (String t) = (s = t)"
| "literal_eq env (Number a) (Number b) = num_cmp env EQ a b"
| "literal_eq env (Boolean v) (Boolean w) = py_eq env v w"
| "literal_eq env Null Null = True"
| "literal_eq env a b = False"

fun node_eq :: "'f env \<Rightarrow> 'f expr \<Rightarrow> 'f expr \<Rightarrow> bool"
  and list_eq :: "'f env \<Rightarrow> 'f expr list \<Rightarrow> 'f expr list \<Rightarrow> bool" where
  "node_eq env (Literal a) other =
     (case other of Literal b \<Rightarrow> literal_eq env a b | _ \<Rightarrow> False)"
| "node_eq env (TimeRange d) other =
     (case other of TimeRange d' \<Rightarrow> d = d' | _ \<Rightarrow> False)"
| "node_eq env (Field_node b p) other =
     (case other of Field_node b' p' \<Rightarrow> b = b' \<and> p = p' | _ \<Rightarrow> False)"
| "node_eq env (FunctionCall n as m) other =
     (case other of
        FunctionCall n' as' m' \<Rightarrow> n = n' \<and> list_eq env as as' \<and> m = m'
      | _ \<Rightarrow> False)"
| "node_eq env (NamedSubquery t ev q) other =
     (case other of
        NamedSubquery t' ev' q' \<Rightarrow> t = t' \<and> ev = ev' \<and> node_eq env q q'
      | _ \<Rightarrow> False)"
| "node_eq env (MathOperation l op r) other =
     (case other of
        MathOperation l' op' r' \<Rightarrow> node_eq env l l' \<and> op = op' \<and> node_eq env r r'
      | _ \<Rightarrow> False)"
| "node_eq env (Comparison l c r) other =
     (case other of
        Comparison l' c' r' \<Rightarrow> node_eq env l l' \<and> c = c' \<and> node_eq env r r'
      | _ \<Rightarrow> False)"
| "node_eq env (InSet e cs) other =
     (case other of
        InSet e' cs' \<Rightarrow> node_eq env e e' \<and> list_eq env cs cs'
      | _ \<Rightarrow> False)"
| "node_eq env (Not_node t) other =
     (case other of Not_node t' \<Rightarrow> node_eq env t t' | _ \<Rightarrow> False)"
| "node_eq env (And ts) other =
     (case other of And ts' \<Rightarrow> list_eq env ts ts' | _ \<Rightarrow> False)"
| "node_eq env (Or ts) other =
     (case other of Or ts' \<Rightarrow> list_eq env ts ts' | _ \<Rightarrow> False)"
| "list_eq env [] ys = (case ys of [] \<Rightarrow> True | _ \<Rightarrow> False)"
| "list_eq env (x # xs) ys =
     (case ys of [] \<Rightarrow> False | y # ys' \<Rightarrow> node_eq env x y \<and> list_eq env xs ys')"

subsection \<open>\<^verbatim>\<open>Comparison.optimize\<close>\<close>

text \<open>\<^verbatim>\<open>isinstance(self.right, type(self.left))\<close>: the four literal classes are siblings.\<close>

fun same_class :: "'f literal \<Rightarrow> 'f literal \<Rightarrow> bool" where
  "same_class (String s) r = (case r of String t \<Rightarrow> True | _ \<Rightarrow> False)"
| "same_class (Number n) r = (case r of Number m \<Rightarrow> True | _ \<Rightarrow> False)"
| "same_class (Boolean v) r = (case r of Boolean w \<Rightarrow> True | _ \<Rightarrow> False)"
| "same_class Null r = (case r of Null \<Rightarrow> True | _ \<Rightarrow> False)"

fun is_String :: "'f literal \<Rightarrow> bool" where
  "is_String (String s) = True"
| "is_String l = False"

fun lower_value :: "'f pyval \<Rightarrow> 'f pyval" where
  "lower_value (VStr s) = VStr (lower s)"
| "lower_value v = v"

text \<open>The branch for two literals.\<close>

definition Comparison_literals ::
  "'f env \<Rightarrow> 'f literal \<Rightarrow> comparator \<Rightarrow> 'f literal \<Rightarrow> error + 'f expr" where
  "Comparison_literals env l c r =
     (if \<not> same_class l r then Inr (Bool_node (c = NE))
      else
        (let lhs = (if is_String l then lower_value (literal_value l) else literal_value l);
             rhs = (if is_String l then lower_value (literal_value r) else literal_value r)
         in case py_compare env c lhs rhs of
              Inl e \<Rightarrow> Inl e
            | Inr b \<Rightarrow> Inr (Bool_node b)))"

text \<open>The branch \<^verbatim>\<open>elif self.left == self.right\<close>, and the final \<^verbatim>\<open>return self\<close>.\<close>

definition Comparison_same ::
  "'f env \<Rightarrow> 'f expr \<Rightarrow> comparator \<Rightarrow> 'f expr \<Rightarrow> error + 'f expr" where
  "Comparison_same env left c right =
     (if node_eq env left right then Inr (Bool_node (c = EQ \<or> c = LE \<or> c = GE))
      else Inr (Comparison left c right))"

definition Comparison_optimize ::
  "'f env \<Rightarrow> 'f expr \<Rightarrow> comparator \<Rightarrow> 'f expr \<Rightarrow> error + 'f expr" where
  "Comparison_optimize env left c right =
     (case left of
        Literal l \<Rightarrow>
          (case right of
             Literal r \<Rightarrow> Comparison_literals env l c r
           | _ \<Rightarrow> Comparison_same env left c right)
      | _ \<Rightarrow> Comparison_same env left c right)"

subsection \<open>\<^verbatim>\<open>InSet\<close>: the ordered dictionary of literals and \<^verbatim>\<open>optimize\<close>\<close>

text \<open>
  An \<^verbatim>\<open>OrderedDict\<close> from values to literals, in insertion order. A key is found when
  a stored key is \<^verbatim>\<open>==\<close> to it, so \<^verbatim>\<open>1\<close> and \<^verbatim>\<open>True\<close> are one key.
\<close>

type_synonym 'f odict = "('f pyval \<times> 'f literal) list"

definition od_contains :: "'f env \<Rightarrow> 'f odict \<Rightarrow> 'f pyval \<Rightarrow> bool" where
  "od_contains env d k = list_ex (\<lambda>kv. py_eq env (fst kv) k) d"

definition od_setdefault :: "'f env \<Rightarrow> 'f odict \<Rightarrow> 'f pyval \<Rightarrow> 'f literal \<Rightarrow> 'f odict" where
  "od_setdefault env d k v = (if od_contains env d k then d else d @ [(k, v)])"

text \<open>\<^verbatim>\<open>values[k] = literal\<close>: an existing key keeps its place (and itself), the value is replaced.\<close>

fun od_setitem :: "'f env \<Rightarrow> 'f odict \<Rightarrow> 'f pyval \<Rightarrow> 'f literal \<Rightarrow> 'f odict" where
  "od_setitem env [] k v = [(k, v)]"
| "od_setitem env (kv # d) k v =
     (if py_eq env (fst kv) k then (fst kv, v) # d else kv # od_setitem env d k v)"

text \<open>One round of the loop of \<^verbatim>\<open>InSet._get_literals\<close>.\<close>

fun get_literals_step :: "'f env \<Rightarrow> 'f expr \<Rightarrow> 'f odict \<Rightarrow> 'f odict" where
  "get_literals_step env (Literal l) values =
     (if is_String l then od_setdefault env values (lower_value (literal_value l)) l
      else od_setitem env values (literal_value l) l)"
| "get_literals_step env e values = values"

definition get_literals :: "'f env \<Rightarrow> 'f expr list \<Rightarrow> 'f odict" where
  "get_literals env container = fold (get_literals_step env) container []"

definition is_literal :: "'f expr list \<Rightarrow> bool" where
  "is_literal container = list_all is_Literal container"

definition is_dynamic :: "'f expr list \<Rightarrow> bool" where
  "is_dynamic container = list_all (\<lambda>v. \<not> is_Literal v) container"

text \<open>\<^verbatim>\<open>expression in container\<close>.\<close>

definition node_in :: "'f env \<Rightarrow> 'f expr \<Rightarrow> 'f expr list \<Rightarrow> bool" where
  "node_in env e container = list_ex (\<lambda>x. node_eq env x e) container"

text \<open>
  \<^verbatim>\<open>InSet.optimize\<close>, first half: the container after the literals were moved to the
  front, or \<open>None\<close> where the source returns \<^verbatim>\<open>Boolean(True)\<close> for a literal expression
  found among the literals.
\<close>

definition InSet_container :: "'f env \<Rightarrow> 'f expr \<Rightarrow> 'f expr list \<Rightarrow> 'f expr list option" where
  "InSet_container env expression container =
     (let literals = map (\<lambda>kv. Literal (snd kv)) (get_literals env container);
          dynamic = filter (\<lambda>v. \<not> is_Literal v) container
      in case expression of
           Literal l \<Rightarrow>
             (if od_contains env (get_literals env container) (lower_value (literal_value l))
              then None else Some dynamic)
         | _ \<Rightarrow> Some (literals @ dynamic))"

definition InSet_optimize :: "'f env \<Rightarrow> 'f expr \<Rightarrow> 'f expr list \<Rightarrow> error + 'f expr" where
  "InSet_optimize env expression container =
     (case InSet_container env expression container of
        None \<Rightarrow> Inr (Bool_node True)
      | Some c \<Rightarrow>
          (if length c = 0 then Inr (Bool_node False)
           else if length c = 1 then Comparison_optimize env expression EQ (c ! 0)
           else if node_in env expression c then Inr (Bool_node True)
           else Inr (InSet expression c)))"

section \<open>The pairwise combinations \<^verbatim>\<open>&\<close> and \<^verbatim>\<open>|\<close>\<close>

text \<open>
  Expressions are values here: \<^verbatim>\<open>a & b\<close> returns the combined tree. The in-place update
  of \<^verbatim>\<open>self.terms\<close> by \<^verbatim>\<open>And.__and__\<close> and \<^verbatim>\<open>Or.__or__\<close> is the subject of the last section.
\<close>

subsection \<open>\<^verbatim>\<open>__and__\<close>\<close>

definition Expression_and :: "'f env \<Rightarrow> 'f expr \<Rightarrow> 'f expr \<Rightarrow> 'f expr" where
  "Expression_and env self other =
     (case other of
        Literal l \<Rightarrow> (if truthy env (literal_value l) then self else Bool_node False)
      | And terms \<Rightarrow> And ([self] @ terms)
      | _ \<Rightarrow> And [self, other])"

text \<open>\<^verbatim>\<open>self.value and other.value\<close> is the second value when the first is truthy.\<close>

definition Literal_and :: "'f env \<Rightarrow> 'f literal \<Rightarrow> 'f expr \<Rightarrow> 'f expr" where
  "Literal_and env self other =
     (case other of
        Literal l \<Rightarrow>
          Literal (Boolean (if truthy env (literal_value self) then literal_value l
                            else literal_value self))
      | _ \<Rightarrow> (if truthy env (literal_value self) then other else Bool_node False))"

definition And_and :: "'f expr list \<Rightarrow> 'f expr \<Rightarrow> 'f expr" where
  "And_and terms other =
     (case other of
        And terms' \<Rightarrow> And (terms @ terms')
      | _ \<Rightarrow> And (terms @ [other]))"

text \<open>The entries of \<open>d1\<close> whose key is (is not) a key of \<open>d2\<close>.\<close>

definition reduced_in :: "'f env \<Rightarrow> 'f odict \<Rightarrow> 'f odict \<Rightarrow> 'f expr list" where
  "reduced_in env d1 d2 =
     map (\<lambda>kv. Literal (snd kv)) (filter (\<lambda>kv. od_contains env d2 (fst kv)) d1)"

definition reduced_not_in :: "'f env \<Rightarrow> 'f odict \<Rightarrow> 'f odict \<Rightarrow> 'f expr list" where
  "reduced_not_in env d1 d2 =
     map (\<lambda>kv. Literal (snd kv)) (filter (\<lambda>kv. \<not> od_contains env d2 (fst kv)) d1)"

fun is_Comparison :: "'f expr \<Rightarrow> bool" where
  "is_Comparison (Comparison l c r) = True"
| "is_Comparison e = False"

text \<open>
  \<^verbatim>\<open>InSet.__and__\<close>, \<^verbatim>\<open>Comparison.__and__\<close>, the dispatch of \<^verbatim>\<open>a & b\<close> on the class of \<open>a\<close>,
  and \<^verbatim>\<open>And.optimize\<close> with its loop. They call each other: for a comparison \<open>other\<close>,
  \<^verbatim>\<open>InSet.__and__\<close> returns \<^verbatim>\<open>super().__and__(InSet(other.left, [other.right])).optimize()\<close>,
  where \<^verbatim>\<open>super().__and__\<close> is \<open>Expression_and\<close> and gives the node
  \<^verbatim>\<open>And([self, InSet(...)])\<close>, whose \<^verbatim>\<open>optimize\<close> is \<^verbatim>\<open>And.optimize\<close>.
  \<open>And_loop env terms current rest\<close> is the \<^verbatim>\<open>for\<close> loop of \<^verbatim>\<open>And.optimize\<close> with \<open>rest\<close>
  still to visit.
\<close>

function InSet_and :: "'f env \<Rightarrow> 'f expr \<Rightarrow> 'f expr list \<Rightarrow> 'f expr \<Rightarrow> error + 'f expr"
  and Comparison_and ::
    "'f env \<Rightarrow> 'f expr \<Rightarrow> comparator \<Rightarrow> 'f expr \<Rightarrow> 'f expr \<Rightarrow> error + 'f expr"
  and op_and :: "'f env \<Rightarrow> 'f expr \<Rightarrow> 'f expr \<Rightarrow> error + 'f expr"
  and And_optimize :: "'f env \<Rightarrow> 'f expr list \<Rightarrow> error + 'f expr"
  and And_loop ::
    "'f env \<Rightarrow> 'f expr list \<Rightarrow> 'f expr \<Rightarrow> 'f expr list \<Rightarrow> error + 'f expr" where
  "InSet_and env expression container other =
     (case other of
        InSet expression' container' \<Rightarrow>
          (if node_eq env expression expression'
              \<and> is_literal container \<and> is_literal container'
           then InSet_optimize env expression
                  (reduced_in env (get_literals env container) (get_literals env container'))
           else Inr (Expression_and env (InSet expression container) other))
      | Not_node term \<Rightarrow>
          (case term of
             InSet expression' container' \<Rightarrow>
               (if node_eq env expression expression'
                   \<and> is_literal container \<and> is_literal container'
                then InSet_optimize env expression
                       (reduced_not_in env (get_literals env container)
                          (get_literals env container'))
                else Inr (Expression_and env (InSet expression container) other))
           | _ \<Rightarrow> Inr (Expression_and env (InSet expression container) other))
      | Comparison left c right \<Rightarrow>
          (if c = EQ \<and> node_eq env expression left
              \<and> is_literal container \<and> is_Literal right
           then And_optimize env [InSet expression container, InSet left [right]]
           else if c = NE \<and> node_eq env expression left
              \<and> is_literal container \<and> is_Literal right
           then And_optimize env [InSet expression container, Not_node (InSet left [right])]
           else Inr (Expression_and env (InSet expression container) other))
      | _ \<Rightarrow> Inr (Expression_and env (InSet expression container) other))"
| "Comparison_and env left c right other =
     (case other of
        InSet expression' container' \<Rightarrow>
          (if c = EQ \<and> node_eq env left expression'
           then InSet_and env left [right] other
           else Inr (Expression_and env (Comparison left c right) other))
      | _ \<Rightarrow> Inr (Expression_and env (Comparison left c right) other))"
| "op_and env a b =
     (case a of
        Literal l \<Rightarrow> Inr (Literal_and env l b)
      | Comparison left c right \<Rightarrow> Comparison_and env left c right b
      | InSet expression container \<Rightarrow> InSet_and env expression container b
      | And terms \<Rightarrow> Inr (And_and terms b)
      | _ \<Rightarrow> Inr (Expression_and env a b))"
| "And_optimize env terms =
     (case terms of
        [] \<Rightarrow> Inl IndexError
      | current # rest \<Rightarrow> And_loop env [] current rest)"
| "And_loop env terms current [] =
     (if terms \<noteq> [] then Inr (And (terms @ [current])) else Inr current)"
| "And_loop env terms current (term # rest) =
     (case op_and env current term of
        Inl e \<Rightarrow> Inl e
      | Inr current' \<Rightarrow>
          (case current' of
             And terms' \<Rightarrow>
               (if terms' = [] then Inl IndexError
                else And_loop env (terms @ butlast terms') (last terms') rest)
           | _ \<Rightarrow> And_loop env terms current' rest))"
  by pat_completeness auto

termination
  apply (relation "measure (\<lambda>x. case x of
            Inl (Inl (env, e, cs, other)) \<Rightarrow> (if is_Comparison other then 5 else 0)
          | Inl (Inr (env, l, c, r, other)) \<Rightarrow> (if is_Comparison other then 5 else 0) + 1
          | Inr (Inl (env, a, b)) \<Rightarrow> (if is_Comparison b then 5 else 0) + 2
          | Inr (Inr (Inl (env, terms))) \<Rightarrow>
              sum_list (map (\<lambda>t. (if is_Comparison t then 5 else 0) + 3) (tl terms)) + 1
          | Inr (Inr (Inr (env, terms, current, rest))) \<Rightarrow>
              sum_list (map (\<lambda>t. (if is_Comparison t then 5 else 0) + 3) rest))")
  apply simp_all
  done

subsection \<open>\<^verbatim>\<open>__or__\<close>\<close>

text \<open>
  In \<^verbatim>\<open>Expression.__or__\<close> a falsy literal \<open>other\<close> falls through both \<^verbatim>\<open>if\<close>s to the last
  line, \<^verbatim>\<open>return Or([self, other])\<close>.
\<close>

definition Expression_or :: "'f env \<Rightarrow> 'f expr \<Rightarrow> 'f expr \<Rightarrow> 'f expr" where
  "Expression_or env self other =
     (case other of
        Literal l \<Rightarrow> (if truthy env (literal_value l) then Bool_node True else Or [self, other])
      | Or terms \<Rightarrow> Or ([self] @ terms)
      | _ \<Rightarrow> Or [self, other])"

definition Literal_or :: "'f env \<Rightarrow> 'f literal \<Rightarrow> 'f expr \<Rightarrow> 'f expr" where
  "Literal_or env self other =
     (case other of
        Literal l \<Rightarrow>
          Literal (Boolean (if truthy env (literal_value self) then literal_value self
                            else literal_value l))
      | _ \<Rightarrow> (if truthy env (literal_value self) then Literal self else other))"

definition Or_or :: "'f expr list \<Rightarrow> 'f expr \<Rightarrow> 'f expr" where
  "Or_or terms other =
     (case other of
        Or terms' \<Rightarrow> Or (terms @ terms')
      | _ \<Rightarrow> Or (terms @ [other]))"

definition Comparison_or ::
  "'f env \<Rightarrow> 'f expr \<Rightarrow> comparator \<Rightarrow> 'f expr \<Rightarrow> 'f expr \<Rightarrow> 'f expr" where
  "Comparison_or env left c right other =
     (if c = EQ \<and> is_Literal right then
        (case other of
           Comparison left' c' right' \<Rightarrow>
             (if node_eq env left left' \<and> c' = EQ \<and> is_Literal right'
              then InSet left [right, right']
              else Expression_or env (Comparison left c right) other)
         | InSet expression' container' \<Rightarrow>
             (if node_eq env left expression' \<and> is_literal container'
              then InSet left ([right] @ container')
              else Expression_or env (Comparison left c right) other)
         | _ \<Rightarrow> Expression_or env (Comparison left c right) other)
      else Expression_or env (Comparison left c right) other)"

text \<open>\<^verbatim>\<open>for k, v in other._get_literals().items(): container.setdefault(k, v)\<close>.\<close>

definition od_union :: "'f env \<Rightarrow> 'f odict \<Rightarrow> 'f odict \<Rightarrow> 'f odict" where
  "od_union env d1 d2 = fold (\<lambda>kv d. od_setdefault env d (fst kv) (snd kv)) d2 d1"

definition InSet_or ::
  "'f env \<Rightarrow> 'f expr \<Rightarrow> 'f expr list \<Rightarrow> 'f expr \<Rightarrow> error + 'f expr" where
  "InSet_or env expression container other =
     (case other of
        InSet expression' container' \<Rightarrow>
          (if node_eq env expression expression'
              \<and> is_literal container \<and> is_literal container'
           then InSet_optimize env expression
                  (map (\<lambda>kv. Literal (snd kv))
                     (od_union env (get_literals env container) (get_literals env container')))
           else Inr (Expression_or env (InSet expression container) other))
      | Comparison left c right \<Rightarrow>
          (if node_eq env expression left \<and> is_literal container \<and> is_Literal right
           then Inr (Expression_or env (InSet expression container) (InSet left [right]))
           else Inr (Expression_or env (InSet expression container) other))
      | _ \<Rightarrow> Inr (Expression_or env (InSet expression container) other))"

definition op_or :: "'f env \<Rightarrow> 'f expr \<Rightarrow> 'f expr \<Rightarrow> error + 'f expr" where
  "op_or env a b =
     (case a of
        Literal l \<Rightarrow> Inr (Literal_or env l b)
      | Comparison left c right \<Rightarrow> Inr (Comparison_or env left c right b)
      | InSet expression container \<Rightarrow> InSet_or env expression container b
      | Or terms \<Rightarrow> Inr (Or_or terms b)
      | _ \<Rightarrow> Inr (Expression_or env a b))"

fun Or_loop ::
  "'f env \<Rightarrow> 'f expr list \<Rightarrow> 'f expr \<Rightarrow> 'f expr list \<Rightarrow> error + 'f expr" where
  "Or_loop env terms current [] =
     (if terms \<noteq> [] then Inr (Or (terms @ [current])) else Inr current)"
| "Or_loop env terms current (term # rest) =
     (case op_or env current term of
        Inl e \<Rightarrow> Inl e
      | Inr current' \<Rightarrow>
          (case current' of
             Or terms' \<Rightarrow>
               (if terms' = [] then Inl IndexError
                else Or_loop env (terms @ butlast terms') (last terms') rest)
           | _ \<Rightarrow> Or_loop env terms current' rest))"

definition Or_optimize :: "'f env \<Rightarrow> 'f expr list \<Rightarrow> error + 'f expr" where
  "Or_optimize env terms =
     (case terms of
        [] \<Rightarrow> Inl IndexError
      | current # rest \<Rightarrow> Or_loop env [] current rest)"

section \<open>\<^verbatim>\<open>optimize\<close> and \<^verbatim>\<open>~\<close>\<close>

text \<open>\<^verbatim>\<open>Literal.from_python\<close> on a primitive value.\<close>

fun from_python :: "'f pyval \<Rightarrow> 'f literal" where
  "from_python VNone = Null"
| "from_python (VBool b) = Boolean (VBool b)"
| "from_python (VNum n) = Number n"
| "from_python (VStr s) = String s"

fun the_value :: "'f expr \<Rightarrow> 'f pyval" where
  "the_value (Literal l) = literal_value l"
| "the_value e = VNone"

text \<open>\<^verbatim>\<open>FunctionCall.optimize\<close> once the arguments are optimized.\<close>

definition FunctionCall_fold ::
  "'f env \<Rightarrow> string \<Rightarrow> 'f expr list \<Rightarrow> bool \<Rightarrow> error + 'f expr" where
  "FunctionCall_fold env name arguments as_method =
     (case get_function env name of
        None \<Rightarrow> Inr (FunctionCall name arguments as_method)
      | Some run \<Rightarrow>
          (if list_all is_Literal arguments then
             (case run (map the_value arguments) of
                Returned rv \<Rightarrow> Inr (Literal (from_python rv))
              | ReturnedObject \<Rightarrow> Inl TypeError
              | RaisedNotImplemented \<Rightarrow> Inr (FunctionCall name arguments as_method)
              | Raised e \<Rightarrow> Inl e)
           else Inr (FunctionCall name arguments as_method)))"

text \<open>
  \<^verbatim>\<open>MathOperation.optimize\<close> once both sides are optimized: the second \<^verbatim>\<open>if\<close>
  (\<^verbatim>\<open>a + (0 - b)\<close> becomes \<^verbatim>\<open>a - b\<close>) and the final \<^verbatim>\<open>return\<close>, then the whole.
\<close>

definition MathOperation_negative ::
  "'f env \<Rightarrow> 'f expr \<Rightarrow> mathop \<Rightarrow> 'f expr \<Rightarrow> 'f expr" where
  "MathOperation_negative env left op right =
     (case right of
        MathOperation rleft rop rright \<Rightarrow>
          (if node_eq env rleft (Literal (Number (PInt 0)))
              \<and> (op = Sub \<or> op = Add) \<and> (rop = Sub \<or> rop = Add)
           then MathOperation left (if (op = Sub) \<noteq> (rop = Sub) then Sub else Add) rright
           else MathOperation left op right)
      | _ \<Rightarrow> MathOperation left op right)"

definition MathOperation_fold ::
  "'f env \<Rightarrow> 'f expr \<Rightarrow> mathop \<Rightarrow> 'f expr \<Rightarrow> error + 'f expr" where
  "MathOperation_fold env left op right =
     (case left of
        Literal (Number a) \<Rightarrow>
          (case right of
             Literal (Number b) \<Rightarrow>
               (if \<not> (num_cmp env EQ b (PInt 0) \<and> (op = Div \<or> op = Mod))
                then (case func env op a b of
                        Inl e \<Rightarrow> Inl e
                      | Inr v \<Rightarrow> Inr (Literal (Number v)))
                else Inr (MathOperation_negative env left op right))
           | _ \<Rightarrow> Inr (MathOperation_negative env left op right))
      | _ \<Rightarrow> Inr (MathOperation_negative env left op right))"

text \<open>\<^verbatim>\<open>__invert__\<close> of every class but \<^verbatim>\<open>Not\<close>.\<close>

definition Comparison_invert ::
  "'f env \<Rightarrow> 'f expr \<Rightarrow> comparator \<Rightarrow> 'f expr \<Rightarrow> error + 'f expr" where
  "Comparison_invert env left c right =
     (if c = EQ then Comparison_optimize env left NE right
      else if c = NE then Comparison_optimize env left EQ right
      else Inr (Not_node (Comparison left c right)))"

definition Literal_invert :: "'f env \<Rightarrow> 'f literal \<Rightarrow> 'f expr" where
  "Literal_invert env l = Bool_node (\<not> truthy env (literal_value l))"

fun collect :: "(error + 'a) list \<Rightarrow> error + 'a list" where
  "collect [] = Inr []"
| "collect (x # xs) =
     (case x of
        Inl e \<Rightarrow> Inl e
      | Inr v \<Rightarrow> (case collect xs of Inl e \<Rightarrow> Inl e | Inr vs \<Rightarrow> Inr (v # vs)))"

text \<open>The number of nodes of an expression; a literal counts one whatever it holds.\<close>

fun esize :: "'f expr \<Rightarrow> nat" where
  "esize (Literal l) = 1"
| "esize (TimeRange d) = 1"
| "esize (Field_node b p) = 1"
| "esize (FunctionCall n as m) = 1 + sum_list (map esize as)"
| "esize (NamedSubquery t ev q) = 1 + esize q"
| "esize (MathOperation l op r) = 1 + esize l + esize r"
| "esize (Comparison l c r) = 1 + esize l + esize r"
| "esize (InSet e cs) = 1 + esize e + sum_list (map esize cs)"
| "esize (Not_node t) = 1 + esize t"
| "esize (And ts) = 1 + sum_list (map esize ts)"
| "esize (Or ts) = 1 + sum_list (map esize ts)"

text \<open>
  \<^verbatim>\<open>optimize\<close>, by class. \<^verbatim>\<open>Not.optimize\<close> returns \<^verbatim>\<open>~ self.term.optimize()\<close>, and \<^verbatim>\<open>~\<close> of a
  \<^verbatim>\<open>Not\<close> is \<^verbatim>\<open>Not.__invert__\<close>: \<^verbatim>\<open>self.term.optimize()\<close> again, on the inner term.
\<close>

function optimize :: "'f env \<Rightarrow> 'f expr \<Rightarrow> error + 'f expr" where
  "optimize env (Literal l) = Inr (Literal l)"
| "optimize env (TimeRange d) = Inr (TimeRange d)"
| "optimize env (Field_node b p) = Inr (Field_node b p)"
| "optimize env (NamedSubquery t ev q) = Inr (NamedSubquery t ev q)"
| "optimize env (FunctionCall name arguments as_method) =
     (case collect (map (optimize env) arguments) of
        Inl e \<Rightarrow> Inl e
      | Inr arguments' \<Rightarrow> FunctionCall_fold env name arguments' as_method)"
| "optimize env (MathOperation left op right) =
     (case optimize env left of
        Inl e \<Rightarrow> Inl e
      | Inr left' \<Rightarrow>
          (case optimize env right of
             Inl e \<Rightarrow> Inl e
           | Inr right' \<Rightarrow> MathOperation_fold env left' op right'))"
| "optimize env (Comparison left c right) = Comparison_optimize env left c right"
| "optimize env (InSet expression container) = InSet_optimize env expression container"
| "optimize env (Not_node term) =
     (case optimize env term of
        Inl e \<Rightarrow> Inl e
      | Inr optimized_term \<Rightarrow>
          (case optimized_term of
             Literal l \<Rightarrow> Inr (Literal_invert env l)
           | Comparison left c right \<Rightarrow> Comparison_invert env left c right
           | Not_node term' \<Rightarrow> optimize env term'
           | _ \<Rightarrow> Inr (Not_node optimized_term)))"
| "optimize env (And terms) = And_optimize env terms"
| "optimize env (Or terms) = Or_optimize env terms"
  by pat_completeness auto

text \<open>
  \<^verbatim>\<open>~ e\<close>: \<^verbatim>\<open>Literal.__invert__\<close>, \<^verbatim>\<open>Comparison.__invert__\<close>, \<^verbatim>\<open>Not.__invert__\<close>, and
  \<^verbatim>\<open>Expression.__invert__\<close> for the other classes.
\<close>

definition invert :: "'f env \<Rightarrow> 'f expr \<Rightarrow> error + 'f expr" where
  "invert env e =
     (case e of
        Literal l \<Rightarrow> Inr (Literal_invert env l)
      | Comparison left c right \<Rightarrow> Comparison_invert env left c right
      | Not_node term \<Rightarrow> optimize env term
      | _ \<Rightarrow> Inr (Not_node e))"

fun is_And :: "'f expr \<Rightarrow> bool" where
  "is_And (And ts) = True"
| "is_And e = False"

fun is_Or :: "'f expr \<Rightarrow> bool" where
  "is_Or (Or ts) = True"
| "is_Or e = False"


section \<open>Macro expansion\<close>









section \<open>Rendering a \<^verbatim>\<open>TimeRange\<close>\<close>







section \<open>Constructing literals\<close>

text \<open>
  \<^verbatim>\<open>type(self)\<close> of a literal under construction, and the object \<^verbatim>\<open>__init__\<close> leaves: its
  class and its \<^verbatim>\<open>value\<close> slot.
\<close>

datatype literal_class = LiteralC | BooleanC | NullC | NumberC | StringC

definition Literal_init ::
  "literal_class \<Rightarrow> 'f pyval \<Rightarrow> error + (literal_class \<times> 'f pyval)" where
  "Literal_init cls v = (if cls = LiteralC then Inl TypeError else Inr (cls, v))"

text \<open>\<^verbatim>\<open>Null.__init__(self, value=None)\<close> calls \<^verbatim>\<open>super().__init__(None)\<close>.\<close>

definition Null_init :: "'f pyval \<Rightarrow> error + (literal_class \<times> 'f pyval)" where
  "Null_init v = Literal_init NullC VNone"

section \<open>The terms lists as shared objects\<close>

text \<open>
  \<^verbatim>\<open>And.__and__\<close> and \<^verbatim>\<open>Or.__or__\<close> extend \<^verbatim>\<open>self.terms\<close> in place and return a node on the
  same list. Here a compound node holds the address of its terms list, for trees
  of \<^verbatim>\<open>And\<close>, \<^verbatim>\<open>Or\<close>, \<^verbatim>\<open>Field\<close> and literal nodes. A heap is the lists by address and the next
  free address.
\<close>

type_synonym ref = nat

datatype 'f node = NLiteral "'f literal" | NField string "pathkey list" | NAnd ref | NOr ref

datatype 'f heap = Heap "ref \<Rightarrow> 'f node list" ref

fun terms_at :: "'f heap \<Rightarrow> ref \<Rightarrow> 'f node list" where
  "terms_at (Heap m n) r = m r"

fun store_terms :: "'f heap \<Rightarrow> ref \<Rightarrow> 'f node list \<Rightarrow> 'f heap" where
  "store_terms (Heap m n) r ts = Heap (m(r := ts)) n"

fun new_terms :: "'f heap \<Rightarrow> 'f node list \<Rightarrow> ref \<times> 'f heap" where
  "new_terms (Heap m n) ts = (n, Heap (m(n := ts)) (Suc n))"

definition h_Expression_and :: "'f env \<Rightarrow> 'f node \<Rightarrow> 'f node \<Rightarrow> 'f heap \<Rightarrow> 'f node \<times> 'f heap" where
  "h_Expression_and env self other h =
     (case other of
        NLiteral l \<Rightarrow>
          ((if truthy env (literal_value l) then self else NLiteral (Boolean (VBool False))), h)
      | NAnd r \<Rightarrow> (case new_terms h ([self] @ terms_at h r) of (r', h') \<Rightarrow> (NAnd r', h'))
      | _ \<Rightarrow> (case new_terms h [self, other] of (r', h') \<Rightarrow> (NAnd r', h')))"

definition h_Literal_and :: "'f env \<Rightarrow> 'f literal \<Rightarrow> 'f node \<Rightarrow> 'f node" where
  "h_Literal_and env self other =
     (case other of
        NLiteral l \<Rightarrow>
          NLiteral (Boolean (if truthy env (literal_value self) then literal_value l
                             else literal_value self))
      | _ \<Rightarrow> (if truthy env (literal_value self) then other else NLiteral (Boolean (VBool False))))"

text \<open>\<^verbatim>\<open>terms = self.terms\<close>, then \<^verbatim>\<open>terms.extend(other.terms)\<close> or \<^verbatim>\<open>terms.append(other)\<close>.\<close>

definition h_And_and :: "ref \<Rightarrow> 'f node \<Rightarrow> 'f heap \<Rightarrow> 'f node \<times> 'f heap" where
  "h_And_and r other h =
     (case other of
        NAnd r' \<Rightarrow> (NAnd r, store_terms h r (terms_at h r @ terms_at h r'))
      | _ \<Rightarrow> (NAnd r, store_terms h r (terms_at h r @ [other])))"

definition h_op_and :: "'f env \<Rightarrow> 'f node \<Rightarrow> 'f node \<Rightarrow> 'f heap \<Rightarrow> 'f node \<times> 'f heap" where
  "h_op_and env a b h =
     (case a of
        NLiteral l \<Rightarrow> (h_Literal_and env l b, h)
      | NAnd r \<Rightarrow> h_And_and r b h
      | _ \<Rightarrow> h_Expression_and env a b h)"

fun h_And_loop ::
  "'f env \<Rightarrow> 'f node list \<Rightarrow> 'f node \<Rightarrow> 'f node list \<Rightarrow> 'f heap \<Rightarrow> error + 'f node \<times> 'f heap" where
  "h_And_loop env terms current [] h =
     (if terms \<noteq> [] then (case new_terms h (terms @ [current]) of (r, h') \<Rightarrow> Inr (NAnd r, h'))
      else Inr (current, h))"
| "h_And_loop env terms current (term # rest) h =
     (case h_op_and env current term h of
        (current', h') \<Rightarrow>
          (case current' of
             NAnd r \<Rightarrow>
               (if terms_at h' r = [] then Inl IndexError
                else h_And_loop env (terms @ butlast (terms_at h' r)) (last (terms_at h' r)) rest h')
           | _ \<Rightarrow> h_And_loop env terms current' rest h'))"

definition h_And_optimize :: "'f env \<Rightarrow> ref \<Rightarrow> 'f heap \<Rightarrow> error + 'f node \<times> 'f heap" where
  "h_And_optimize env r h =
     (case terms_at h r of
        [] \<Rightarrow> Inl IndexError
      | current # rest \<Rightarrow> h_And_loop env [] current rest h)"

definition h_Expression_or :: "'f env \<Rightarrow> 'f node \<Rightarrow> 'f node \<Rightarrow> 'f heap \<Rightarrow> 'f node \<times> 'f heap" where
  "h_Expression_or env self other h =
     (case other of
        NLiteral l \<Rightarrow>
          (if truthy env (literal_value l) then (NLiteral (Boolean (VBool True)), h)
           else (case new_terms h [self, other] of (r', h') \<Rightarrow> (NOr r', h')))
      | NOr r \<Rightarrow> (case new_terms h ([self] @ terms_at h r) of (r', h') \<Rightarrow> (NOr r', h'))
      | _ \<Rightarrow> (case new_terms h [self, other] of (r', h') \<Rightarrow> (NOr r', h')))"

definition h_Literal_or :: "'f env \<Rightarrow> 'f literal \<Rightarrow> 'f node \<Rightarrow> 'f node" where
  "h_Literal_or env self other =
     (case other of
        NLiteral l \<Rightarrow>
          NLiteral (Boolean (if truthy env (literal_value self) then literal_value self
                             else literal_value l))
      | _ \<Rightarrow> (if truthy env (literal_value self) then NLiteral self else other))"

definition h_Or_or :: "ref \<Rightarrow> 'f node \<Rightarrow> 'f heap \<Rightarrow> 'f node \<times> 'f heap" where
  "h_Or_or r other h =
     (case other of
        NOr r' \<Rightarrow> (NOr r, store_terms h r (terms_at h r @ terms_at h r'))
      | _ \<Rightarrow> (NOr r, store_terms h r (terms_at h r @ [other])))"

definition h_op_or :: "'f env \<Rightarrow> 'f node \<Rightarrow> 'f node \<Rightarrow> 'f heap \<Rightarrow> 'f node \<times> 'f heap" where
  "h_op_or env a b h =
     (case a of
        NLiteral l \<Rightarrow> (h_Literal_or env l b, h)
      | NOr r \<Rightarrow> h_Or_or r b h
      | _ \<Rightarrow> h_Expression_or env a b h)"

fun h_Or_loop ::
  "'f env \<Rightarrow> 'f node list \<Rightarrow> 'f node \<Rightarrow> 'f node list \<Rightarrow> 'f heap \<Rightarrow> error + 'f node \<times> 'f heap" where
  "h_Or_loop env terms current [] h =
     (if terms \<noteq> [] then (case new_terms h (terms @ [current]) of (r, h') \<Rightarrow> Inr (NOr r, h'))
      else Inr (current, h))"
| "h_Or_loop env terms current (term # rest) h =
     (case h_op_or env current term h of
        (current', h') \<Rightarrow>
          (case current' of
             NOr r \<Rightarrow>
               (if terms_at h' r = [] then Inl IndexError
                else h_Or_loop env (terms @ butlast (terms_at h' r)) (last (terms_at h' r)) rest h')
           | _ \<Rightarrow> h_Or_loop env terms current' rest h'))"

definition h_Or_optimize :: "'f env \<Rightarrow> ref \<Rightarrow> 'f heap \<Rightarrow> error + 'f node \<times> 'f heap" where
  "h_Or_optimize env r h =
     (case terms_at h r of
        [] \<Rightarrow> Inl IndexError
      | current # rest \<Rightarrow> h_Or_loop env [] current rest h)"

definition h_optimize :: "'f env \<Rightarrow> 'f node \<Rightarrow> 'f heap \<Rightarrow> error + 'f node \<times> 'f heap" where
  "h_optimize env n h =
     (case n of
        NAnd r \<Rightarrow> h_And_optimize env r h
      | NOr r \<Rightarrow> h_Or_optimize env r h
      | _ \<Rightarrow> Inr (n, h))"

text \<open>
  The tree a node stands for in a heap, read to a depth of \<open>k\<close> compound nodes
  (\<open>None\<close> when the tree is deeper).
\<close>

fun tree_of :: "nat \<Rightarrow> 'f heap \<Rightarrow> 'f node \<Rightarrow> 'f expr option" where
  "tree_of k h (NLiteral l) = Some (Literal l)"
| "tree_of k h (NField b p) = Some (Field_node b p)"
| "tree_of 0 h (NAnd r) = None"
| "tree_of (Suc k) h (NAnd r) = map_option And (those (map (tree_of k h) (terms_at h r)))"
| "tree_of 0 h (NOr r) = None"
| "tree_of (Suc k) h (NOr r) = map_option Or (those (map (tree_of k h) (terms_at h r)))"

text \<open>Optimizing a node, then reading the result and the node that was optimized.\<close>

definition optimize_then_read ::
  "nat \<Rightarrow> 'f env \<Rightarrow> 'f node \<Rightarrow> 'f heap \<Rightarrow> error + ('f expr option \<times> 'f expr option)" where
  "optimize_then_read k env n h =
     (case h_optimize env n h of
        Inl e \<Rightarrow> Inl e
      | Inr (n', h') \<Rightarrow> Inr (tree_of k h' n', tree_of k h' n))"

section \<open>A host without floats and without registered functions\<close>

text \<open>The environment the closed examples below are evaluated in.\<close>

definition plain_env :: "unit env" where
  "plain_env =
     \<lparr> get_function = (\<lambda>name. None),
       float_arith = (\<lambda>op x y. Inl OverflowError),
       float_cmp = (\<lambda>c x y. case (x, y) of
                      (PFloat u, PFloat v) \<Rightarrow> c = EQ \<or> c = LE \<or> c = GE
                    | _ \<Rightarrow> c = NE) \<rparr>"

text \<open>
  The tree \<^verbatim>\<open>And([And([p]), q])\<close>: the inner terms list at address 0, the outer one
  at address 1.
\<close>

definition shared_example :: "unit heap" where
  "shared_example =
     Heap (\<lambda>r. if r = 0 then [NField ''p'' []]
               else if r = 1 then [NAnd 0, NField ''q'' []]
               else []) 2"

section \<open>Notions used in the proofs\<close>

text \<open>
  The bound on the size of \<^verbatim>\<open>a & b\<close> and of \<^verbatim>\<open>a | b\<close>: a new compound node costs one
  more than its terms.
\<close>

definition bound_and :: "'f expr \<Rightarrow> nat \<Rightarrow> bool" where
  "bound_and x n = (esize x \<le> (if is_And x then 1 else 0) + n)"

definition bound_or :: "'f expr \<Rightarrow> nat \<Rightarrow> bool" where
  "bound_or x n = (esize x \<le> (if is_Or x then 1 else 0) + n)"

text \<open>
  A node is plain when the places \<^verbatim>\<open>optimize\<close> descends into (the node itself, the term
  of a \<^verbatim>\<open>Not\<close>, the sides of a \<^verbatim>\<open>MathOperation\<close>, the arguments of a \<^verbatim>\<open>FunctionCall\<close>) hold
  no \<^verbatim>\<open>And\<close> and no \<^verbatim>\<open>Or\<close>.
\<close>

fun plain :: "'f expr \<Rightarrow> bool" where
  "plain (Literal l) = True"
| "plain (TimeRange d) = True"
| "plain (Field_node b p) = True"
| "plain (FunctionCall n as m) = list_all plain as"
| "plain (NamedSubquery t ev q) = True"
| "plain (MathOperation l op r) = (plain l \<and> plain r)"
| "plain (Comparison l c r) = True"
| "plain (InSet e cs) = True"
| "plain (Not_node t) = plain t"
| "plain (And ts) = False"
| "plain (Or ts) = False"

text \<open>
  The host's \<^verbatim>\<open>==\<close> on values is symmetric and transitive. On ints, bools, strings and
  \<^verbatim>\<open>None\<close> it always is; the property is about the floats.
\<close>

definition eq_sym_trans :: "'f env \<Rightarrow> bool" where
  "eq_sym_trans env =
     ((\<forall>a b. py_eq env a b \<longrightarrow> py_eq env b a)
      \<and> (\<forall>a b c. py_eq env a b \<and> py_eq env b c \<longrightarrow> py_eq env a c))"

text \<open>The key under which \<^verbatim>\<open>_get_literals\<close> files a literal.\<close>

definition literal_key :: "'f literal \<Rightarrow> 'f pyval" where
  "literal_key l = (if is_String l then lower_value (literal_value l) else literal_value l)"

definition keyed :: "'f env \<Rightarrow> 'f odict \<Rightarrow> bool" where
  "keyed env d =
     list_all (\<lambda>kv. fst kv = literal_key (snd kv) \<or> py_eq env (fst kv) (literal_key (snd kv))) d"

fun distinct_keys :: "'f env \<Rightarrow> 'f pyval list \<Rightarrow> bool" where
  "distinct_keys env [] = True"
| "distinct_keys env (k # ks) = (list_all (\<lambda>k'. \<not> py_eq env k k') ks \<and> distinct_keys env ks)"

text \<open>
  The two tests of \<^verbatim>\<open>MathOperation.optimize\<close>: both sides are numbers and the division
  is not by zero; the right side is \<^verbatim>\<open>0 - b\<close> or \<^verbatim>\<open>0 + b\<close> under an additive operator.
\<close>

definition foldable :: "'f env \<Rightarrow> 'f expr \<Rightarrow> mathop \<Rightarrow> 'f expr \<Rightarrow> bool" where
  "foldable env left op right =
     (case left of
        Literal (Number a) \<Rightarrow>
          (case right of
             Literal (Number b) \<Rightarrow> \<not> (num_cmp env EQ b (PInt 0) \<and> (op = Div \<or> op = Mod))
           | _ \<Rightarrow> False)
      | _ \<Rightarrow> False)"

definition negative_shape :: "'f env \<Rightarrow> mathop \<Rightarrow> 'f expr \<Rightarrow> bool" where
  "negative_shape env op right =
     (case right of
        MathOperation rleft rop rright \<Rightarrow>
          node_eq env rleft (Literal (Number (PInt 0)))
          \<and> (op = Sub \<or> op = Add) \<and> (rop = Sub \<or> rop = Add)
      | _ \<Rightarrow> False)"

section \<open>\<^verbatim>\<open>optimize\<close> returns: the size of its result\<close>

text \<open>
  \<^verbatim>\<open>Not.__invert__\<close> optimizes a term that an earlier \<^verbatim>\<open>optimize\<close> returned:
  \<open>optimize\<close> terminates because it never returns a larger tree than it was given.
\<close>

lemma esize_pos: "0 < esize e" by (cases e) auto

lemma Comparison_optimize_size:
  "Comparison_optimize env l c r = Inr x \<Longrightarrow> esize x \<le> 1 + esize l + esize r"
  by (auto simp: Comparison_optimize_def Comparison_literals_def Comparison_same_def Let_def
      split: expr.splits if_splits sum.splits)

lemma Comparison_optimize_shape:
  "Comparison_optimize env l c r = Inr x \<Longrightarrow> is_Literal x \<or> x = Comparison l c r"
  by (auto simp: Comparison_optimize_def Comparison_literals_def Comparison_same_def Let_def
      split: expr.splits if_splits sum.splits)

lemma od_setitem_length: "length (od_setitem env d k v) \<le> Suc (length d)"
  by (induction d) auto

lemma od_setdefault_length: "length (od_setdefault env d k v) \<le> Suc (length d)"
  by (simp add: od_setdefault_def)

lemma get_literals_step_length:
  "length (get_literals_step env x d) \<le> length d + (if is_Literal x then 1 else 0)"
  using od_setitem_length [of env d] od_setdefault_length [of env d]
  by (cases x) (auto simp: le_Suc_eq)

lemma fold_get_literals_length:
  "length (fold (get_literals_step env) cs d) \<le> length d + length (filter is_Literal cs)"
proof (induction cs arbitrary: d)
  case Nil
  then show ?case by simp
next
  case (Cons x cs)
  have "length (fold (get_literals_step env) cs (get_literals_step env x d))
        \<le> length (get_literals_step env x d) + length (filter is_Literal cs)"
    by (rule Cons.IH)
  also have "\<dots> \<le> length d + (if is_Literal x then 1 else 0) + length (filter is_Literal cs)"
    using get_literals_step_length [of env x d] by simp
  finally show ?case by (auto split: if_splits)
qed

lemma get_literals_length:
  "length (get_literals env cs) \<le> length (filter is_Literal cs)"
  using fold_get_literals_length [of env cs "[]"] by (simp add: get_literals_def)

lemma esize_literal_nodes: "sum_list (map esize (map (\<lambda>kv. Literal (snd kv)) d)) = length d"
  by (induction d) auto

lemma esize_split:
  "length (filter is_Literal cs) + sum_list (map esize (filter (\<lambda>v. \<not> is_Literal v) cs))
   \<le> sum_list (map esize cs)"
proof (induction cs)
  case Nil
  then show ?case by simp
next
  case (Cons x cs)
  then show ?case using esize_pos [of x] by (cases "is_Literal x") auto
qed

lemma InSet_container_size:
  assumes "InSet_container env e cs = Some c"
  shows "sum_list (map esize c) \<le> sum_list (map esize cs)"
proof -
  let ?dyn = "filter (\<lambda>v. \<not> is_Literal v) cs"
  let ?lits = "map (\<lambda>kv. Literal (snd kv)) (get_literals env cs)"
  have dyn: "sum_list (map esize ?dyn) \<le> sum_list (map esize cs)"
    using esize_split [of cs] by simp
  have all: "sum_list (map esize (?lits @ ?dyn)) \<le> sum_list (map esize cs)"
    using esize_split [of cs] get_literals_length [of env cs]
    by (simp add: esize_literal_nodes del: map_map)
  from assms have "c = ?dyn \<or> c = ?lits @ ?dyn"
    by (auto simp: InSet_container_def Let_def split: expr.splits if_splits)
  with dyn all show ?thesis by auto
qed

lemma one_element_sum: "length c = 1 \<Longrightarrow> sum_list (map esize c) = esize (c ! 0)"
  by (cases c) auto

lemma InSet_optimize_size:
  assumes "InSet_optimize env e cs = Inr x"
  shows "esize x \<le> 1 + esize e + sum_list (map esize cs)"
proof (cases "InSet_container env e cs")
  case None
  with assms show ?thesis by (auto simp: InSet_optimize_def)
next
  case (Some c)
  note sz = InSet_container_size [OF Some]
  show ?thesis
  proof (cases "length c = 1")
    case True
    with assms Some have "Comparison_optimize env e EQ (c ! 0) = Inr x"
      by (simp add: InSet_optimize_def)
    from Comparison_optimize_size [OF this] one_element_sum [OF True] sz
    show ?thesis by simp
  next
    case False
    with assms Some sz show ?thesis
      by (auto simp: InSet_optimize_def split: if_splits)
  qed
qed

lemma InSet_optimize_shape:
  assumes "InSet_optimize env e cs = Inr x"
  shows "\<not> is_And x \<and> \<not> is_Or x"
proof (cases "InSet_container env e cs")
  case None
  with assms show ?thesis by (auto simp: InSet_optimize_def)
next
  case (Some c)
  show ?thesis
  proof (cases "length c = 1")
    case True
    with assms Some have "Comparison_optimize env e EQ (c ! 0) = Inr x"
      by (simp add: InSet_optimize_def)
    from Comparison_optimize_shape [OF this] show ?thesis by (cases x) auto
  next
    case False
    with assms Some show ?thesis
      by (auto simp: InSet_optimize_def split: if_splits)
  qed
qed

declare InSet_and.simps [simp del] Comparison_and.simps [simp del] op_and.simps [simp del]
  And_optimize.simps [simp del]

lemma Expression_and_bound: "bound_and (Expression_and env a b) (esize a + esize b)"
  using esize_pos [of a] esize_pos [of b]
  by (auto simp: Expression_and_def bound_and_def split: expr.splits)

lemma Literal_and_bound: "bound_and (Literal_and env l b) (1 + esize b)"
  using esize_pos [of b]
  by (auto simp: Literal_and_def bound_and_def split: expr.splits)

lemma And_and_bound: "bound_and (And_and ts b) (1 + sum_list (map esize ts) + esize b)"
  by (auto simp: And_and_def bound_and_def split: expr.splits)

lemma not_And_bound:
  "\<not> is_And x \<Longrightarrow> esize x \<le> n \<Longrightarrow> bound_and x n"
  by (simp add: bound_and_def)

lemma And_optimize_InSet_pair:
  assumes "op_and env a b = InSet_optimize env e cs"
  shows "And_optimize env [a, b] = InSet_optimize env e cs"
proof (cases "InSet_optimize env e cs")
  case (Inl err)
  with assms show ?thesis by (simp add: And_optimize.simps)
next
  case (Inr c)
  from InSet_optimize_shape [OF Inr] have "\<not> is_And c" by simp
  with assms Inr show ?thesis
    by (cases c) (simp_all add: And_optimize.simps)
qed

lemma reduced_in_size:
  "sum_list (map esize (reduced_in env d1 d2)) \<le> length d1"
  by (induction d1) (auto simp: reduced_in_def)

lemma reduced_not_in_size:
  "sum_list (map esize (reduced_not_in env d1 d2)) \<le> length d1"
  by (induction d1) (auto simp: reduced_not_in_def)

lemma literals_le_size: "length (get_literals env cs) \<le> sum_list (map esize cs)"
  using get_literals_length [of env cs] esize_split [of cs] by simp

lemma InSet_and_InSet:
  "node_eq env e e' \<Longrightarrow> is_literal cs \<Longrightarrow> is_literal cs' \<Longrightarrow>
   InSet_and env e cs (InSet e' cs') =
     InSet_optimize env e (reduced_in env (get_literals env cs) (get_literals env cs'))"
  by (simp add: InSet_and.simps)

lemma InSet_and_Not_InSet:
  "node_eq env e e' \<Longrightarrow> is_literal cs \<Longrightarrow> is_literal cs' \<Longrightarrow>
   InSet_and env e cs (Not_node (InSet e' cs')) =
     InSet_optimize env e (reduced_not_in env (get_literals env cs) (get_literals env cs'))"
  by (simp add: InSet_and.simps)

lemma InSet_and_Comparison_EQ:
  assumes "node_eq env e l" "is_literal cs" "is_Literal r"
  shows "InSet_and env e cs (Comparison l EQ r) =
     InSet_optimize env e (reduced_in env (get_literals env cs) (get_literals env [r]))"
proof -
  have lit: "is_literal [r]" using assms(3) by (simp add: is_literal_def)
  have "op_and env (InSet e cs) (InSet l [r]) =
        InSet_optimize env e (reduced_in env (get_literals env cs) (get_literals env [r]))"
    using InSet_and_InSet [OF assms(1,2) lit] by (simp add: op_and.simps)
  from And_optimize_InSet_pair [OF this] assms show ?thesis
    by (simp add: InSet_and.simps)
qed

lemma InSet_and_Comparison_NE:
  assumes "node_eq env e l" "is_literal cs" "is_Literal r"
  shows "InSet_and env e cs (Comparison l NE r) =
     InSet_optimize env e (reduced_not_in env (get_literals env cs) (get_literals env [r]))"
proof -
  have lit: "is_literal [r]" using assms(3) by (simp add: is_literal_def)
  have "op_and env (InSet e cs) (Not_node (InSet l [r])) =
        InSet_optimize env e (reduced_not_in env (get_literals env cs) (get_literals env [r]))"
    using InSet_and_Not_InSet [OF assms(1,2) lit] by (simp add: op_and.simps)
  from And_optimize_InSet_pair [OF this] assms show ?thesis
    by (simp add: InSet_and.simps)
qed

lemma InSet_optimize_reduced_bound:
  assumes "InSet_optimize env e cs' = Inr x" "sum_list (map esize cs') \<le> length (get_literals env cs)"
  shows "bound_and x (1 + esize e + sum_list (map esize cs) + n)"
proof -
  from InSet_optimize_size [OF assms(1)] assms(2) literals_le_size [of env cs]
  have "esize x \<le> 1 + esize e + sum_list (map esize cs) + n" by simp
  with InSet_optimize_shape [OF assms(1)] show ?thesis by (simp add: bound_and_def)
qed

lemma InSet_and_bound:
  assumes "InSet_and env e cs other = Inr x"
  shows "bound_and x (1 + esize e + sum_list (map esize cs) + esize other)"
proof -
  let ?self = "InSet e cs"
  let ?n = "1 + esize e + sum_list (map esize cs) + esize other"
  have dflt: "InSet_and env e cs other = Inr (Expression_and env ?self other) \<Longrightarrow> bound_and x ?n"
    using Expression_and_bound [of env ?self other] assms by simp
  have red: "\<And>cs'. InSet_optimize env e cs' = Inr x \<Longrightarrow>
               sum_list (map esize cs') \<le> length (get_literals env cs) \<Longrightarrow> bound_and x ?n"
    by (rule InSet_optimize_reduced_bound)
  show ?thesis
  proof (cases other)
    case (InSet e' cs')
    show ?thesis
    proof (cases "node_eq env e e' \<and> is_literal cs \<and> is_literal cs'")
      case True
      then have "InSet_and env e cs other =
        InSet_optimize env e (reduced_in env (get_literals env cs) (get_literals env cs'))"
        using InSet by (simp add: InSet_and_InSet)
      with assms show ?thesis by (intro red [OF _ reduced_in_size]) simp
    next
      case False
      then show ?thesis using InSet by (intro dflt) (auto simp: InSet_and.simps)
    qed
  next
    case (Not_node t)
    show ?thesis
    proof (cases "\<exists>e' cs'. t = InSet e' cs' \<and> node_eq env e e' \<and> is_literal cs \<and> is_literal cs'")
      case True
      then obtain e' cs' where t: "t = InSet e' cs'" "node_eq env e e'" "is_literal cs" "is_literal cs'"
        by blast
      then have "InSet_and env e cs other =
        InSet_optimize env e (reduced_not_in env (get_literals env cs) (get_literals env cs'))"
        using Not_node by (simp add: InSet_and_Not_InSet)
      with assms show ?thesis by (intro red [OF _ reduced_not_in_size]) simp
    next
      case False
      then show ?thesis using Not_node
        by (intro dflt) (auto simp: InSet_and.simps split: expr.splits)
    qed
  next
    case (Comparison l c r)
    show ?thesis
    proof (cases "node_eq env e l \<and> is_literal cs \<and> is_Literal r \<and> (c = EQ \<or> c = NE)")
      case True
      show ?thesis
      proof (cases "c = EQ")
        case True
        with \<open>node_eq env e l \<and> is_literal cs \<and> is_Literal r \<and> (c = EQ \<or> c = NE)\<close>
        have "InSet_and env e cs other =
          InSet_optimize env e (reduced_in env (get_literals env cs) (get_literals env [r]))"
          using Comparison by (simp add: InSet_and_Comparison_EQ)
        with assms show ?thesis by (intro red [OF _ reduced_in_size]) simp
      next
        case False
        with \<open>node_eq env e l \<and> is_literal cs \<and> is_Literal r \<and> (c = EQ \<or> c = NE)\<close>
        have "InSet_and env e cs other =
          InSet_optimize env e (reduced_not_in env (get_literals env cs) (get_literals env [r]))"
          using Comparison by (simp add: InSet_and_Comparison_NE)
        with assms show ?thesis by (intro red [OF _ reduced_not_in_size]) simp
      qed
    next
      case False
      then show ?thesis using Comparison
        by (intro dflt) (auto simp: InSet_and.simps)
    qed
  qed (rule dflt, simp add: InSet_and.simps)+
qed

lemma Comparison_and_bound:
  assumes "Comparison_and env l c r other = Inr x"
  shows "bound_and x (1 + esize l + esize r + esize other)"
proof (cases "\<exists>e' cs'. other = InSet e' cs' \<and> c = EQ \<and> node_eq env l e'")
  case True
  then obtain e' cs' where o: "other = InSet e' cs'" "c = EQ" "node_eq env l e'" by blast
  with assms have "InSet_and env l [r] other = Inr x" by (simp add: Comparison_and.simps)
  from InSet_and_bound [OF this] show ?thesis by simp
next
  case False
  then have "Comparison_and env l c r other = Inr (Expression_and env (Comparison l c r) other)"
    by (cases other) (auto simp: Comparison_and.simps)
  with assms Expression_and_bound [of env "Comparison l c r" other] show ?thesis by simp
qed

lemma op_and_bound:
  assumes "op_and env a b = Inr x"
  shows "bound_and x (esize a + esize b)"
proof (cases a)
  case (Literal l)
  with assms Literal_and_bound [of env l b] show ?thesis by (simp add: op_and.simps)
next
  case (Comparison l c r)
  with assms Comparison_and_bound [of env l c r b x] show ?thesis by (simp add: op_and.simps)
next
  case (InSet e cs)
  with assms InSet_and_bound [of env e cs b x] show ?thesis by (simp add: op_and.simps)
next
  case (And ts)
  with assms And_and_bound [of ts b] show ?thesis by (simp add: op_and.simps)
qed (use assms Expression_and_bound [of env a b] in \<open>simp_all add: op_and.simps\<close>)

lemma sum_butlast_last:
  "ts \<noteq> [] \<Longrightarrow> sum_list (map esize (butlast ts)) + esize (last ts) = sum_list (map esize ts)"
  by (induction ts) auto

lemma And_loop_size:
  "And_loop env terms current rest = Inr x \<Longrightarrow>
   esize x \<le> 1 + sum_list (map esize terms) + esize current + sum_list (map esize rest)"
proof (induction rest arbitrary: terms current)
  case Nil
  then show ?case by (auto split: if_splits)
next
  case (Cons t rest)
  from Cons.prems obtain c where c: "op_and env current t = Inr c"
    by (auto split: sum.splits)
  note b = op_and_bound [OF c]
  show ?case
  proof (cases "is_And c")
    case True
    then obtain ts where ts: "c = And ts" by (cases c) auto
    with Cons.prems c have ne: "ts \<noteq> []" and
      loop: "And_loop env (terms @ butlast ts) (last ts) rest = Inr x"
      by (auto split: if_splits)
    from Cons.IH [OF loop] sum_butlast_last [OF ne] b ts
    show ?thesis by (simp add: bound_and_def)
  next
    case False
    with Cons.prems c have loop: "And_loop env terms c rest = Inr x"
      by (cases c) auto
    from Cons.IH [OF loop] b False show ?thesis by (simp add: bound_and_def)
  qed
qed

lemma And_optimize_size:
  "And_optimize env ts = Inr x \<Longrightarrow> esize x \<le> 1 + sum_list (map esize ts)"
  using And_loop_size [of env "[]" _ _ x]
  by (cases ts) (auto simp: And_optimize.simps)

lemma Expression_or_bound: "bound_or (Expression_or env a b) (esize a + esize b)"
  using esize_pos [of a] esize_pos [of b]
  by (auto simp: Expression_or_def bound_or_def split: expr.splits)

lemma Literal_or_bound: "bound_or (Literal_or env l b) (1 + esize b)"
  using esize_pos [of b]
  by (auto simp: Literal_or_def bound_or_def split: expr.splits)

lemma Or_or_bound: "bound_or (Or_or ts b) (1 + sum_list (map esize ts) + esize b)"
  by (auto simp: Or_or_def bound_or_def split: expr.splits)

lemma Comparison_or_bound:
  "bound_or (Comparison_or env l c r other) (1 + esize l + esize r + esize other)"
proof -
  have d: "bound_or (Expression_or env (Comparison l c r) other) (1 + esize l + esize r + esize other)"
    using Expression_or_bound [of env "Comparison l c r" other] by simp
  show ?thesis
  proof (cases other)
    case (Comparison l' c' r')
    with d show ?thesis by (auto simp: Comparison_or_def bound_or_def)
  next
    case (InSet e' cs')
    with d show ?thesis by (auto simp: Comparison_or_def bound_or_def)
  qed (use d in \<open>auto simp: Comparison_or_def\<close>)
qed

lemma od_union_length: "length (od_union env d1 d2) \<le> length d1 + length d2"
proof -
  have "length (fold (\<lambda>kv d. od_setdefault env d (fst kv) (snd kv)) d2 d) \<le> length d + length d2" for d
  proof (induction d2 arbitrary: d)
    case Nil
    then show ?case by simp
  next
    case (Cons kv d2)
    from Cons.IH [of "od_setdefault env d (fst kv) (snd kv)"]
      od_setdefault_length [of env d "fst kv" "snd kv"]
    show ?case by simp
  qed
  then show ?thesis by (simp add: od_union_def)
qed

lemma is_literal_size: "is_literal cs \<Longrightarrow> sum_list (map esize cs) = length cs"
proof (induction cs)
  case Nil
  then show ?case by simp
next
  case (Cons a cs)
  then show ?case by (cases a) (auto simp: is_literal_def)
qed

lemma get_literals_le_length: "length (get_literals env cs) \<le> length cs"
  using get_literals_length [of env cs] length_filter_le [of is_Literal cs] by linarith

lemma InSet_or_bound:
  assumes "InSet_or env e cs other = Inr x"
  shows "bound_or x (1 + esize e + sum_list (map esize cs) + esize other)"
proof -
  let ?self = "InSet e cs"
  let ?n = "1 + esize e + sum_list (map esize cs) + esize other"
  have dflt: "InSet_or env e cs other = Inr (Expression_or env ?self other) \<Longrightarrow> bound_or x ?n"
    using Expression_or_bound [of env ?self other] assms by simp
  show ?thesis
  proof (cases other)
    case (InSet e' cs')
    show ?thesis
    proof (cases "node_eq env e e' \<and> is_literal cs \<and> is_literal cs'")
      case True
      let ?u = "map (\<lambda>kv. Literal (snd kv))
                     (od_union env (get_literals env cs) (get_literals env cs'))"
      from True InSet assms have opt: "InSet_optimize env e ?u = Inr x"
        by (simp add: InSet_or_def)
      have "sum_list (map esize ?u) \<le> length cs + length cs'"
        using od_union_length [of env "get_literals env cs" "get_literals env cs'"]
          get_literals_le_length [of env cs] get_literals_le_length [of env cs']
        by (simp add: esize_literal_nodes del: map_map)
      with True have "sum_list (map esize ?u) \<le> sum_list (map esize cs) + sum_list (map esize cs')"
        by (simp add: is_literal_size)
      with InSet_optimize_size [OF opt] InSet_optimize_shape [OF opt] InSet
      show ?thesis by (simp add: bound_or_def)
    next
      case False
      then show ?thesis using InSet by (intro dflt) (auto simp: InSet_or_def)
    qed
  next
    case (Comparison l c r)
    show ?thesis
    proof (cases "node_eq env e l \<and> is_literal cs \<and> is_Literal r")
      case True
      with Comparison assms have "x = Expression_or env ?self (InSet l [r])"
        by (simp add: InSet_or_def)
      then show ?thesis using Comparison by (simp add: Expression_or_def bound_or_def)
    next
      case False
      then show ?thesis using Comparison by (intro dflt) (auto simp: InSet_or_def)
    qed
  qed (rule dflt, simp add: InSet_or_def)+
qed

lemma op_or_bound:
  assumes "op_or env a b = Inr x"
  shows "bound_or x (esize a + esize b)"
proof (cases a)
  case (Literal l)
  with assms Literal_or_bound [of env l b] show ?thesis by (auto simp: op_or_def)
next
  case (Comparison l c r)
  with assms Comparison_or_bound [of env l c r b] show ?thesis by (auto simp: op_or_def)
next
  case (InSet e cs)
  with assms InSet_or_bound [of env e cs b x] show ?thesis by (simp add: op_or_def)
next
  case (Or ts)
  with assms Or_or_bound [of ts b] show ?thesis by (auto simp: op_or_def)
qed (use assms Expression_or_bound [of env a b] in \<open>auto simp: op_or_def\<close>)

lemma Or_loop_size:
  "Or_loop env terms current rest = Inr x \<Longrightarrow>
   esize x \<le> 1 + sum_list (map esize terms) + esize current + sum_list (map esize rest)"
proof (induction rest arbitrary: terms current)
  case Nil
  then show ?case by (auto split: if_splits)
next
  case (Cons t rest)
  from Cons.prems obtain c where c: "op_or env current t = Inr c"
    by (auto split: sum.splits)
  note b = op_or_bound [OF c]
  show ?case
  proof (cases "is_Or c")
    case True
    then obtain ts where ts: "c = Or ts" by (cases c) auto
    with Cons.prems c have ne: "ts \<noteq> []" and
      loop: "Or_loop env (terms @ butlast ts) (last ts) rest = Inr x"
      by (auto split: if_splits)
    from Cons.IH [OF loop] sum_butlast_last [OF ne] b ts
    show ?thesis by (simp add: bound_or_def)
  next
    case False
    with Cons.prems c have loop: "Or_loop env terms c rest = Inr x"
      by (cases c) auto
    from Cons.IH [OF loop] b False show ?thesis by (simp add: bound_or_def)
  qed
qed

lemma Or_optimize_size:
  "Or_optimize env ts = Inr x \<Longrightarrow> esize x \<le> 1 + sum_list (map esize ts)"
  using Or_loop_size [of env "[]" _ _ x]
  by (cases ts) (auto simp: Or_optimize_def)

lemma FunctionCall_fold_size:
  "FunctionCall_fold env n as m = Inr x \<Longrightarrow> esize x \<le> 1 + sum_list (map esize as)"
  by (auto simp: FunctionCall_fold_def split: option.splits if_splits run_result.splits)

lemma MathOperation_negative_size:
  "esize (MathOperation_negative env l op r) \<le> 1 + esize l + esize r"
  by (auto simp: MathOperation_negative_def split: expr.splits)

lemma MathOperation_fold_size:
  "MathOperation_fold env l op r = Inr x \<Longrightarrow> esize x \<le> 1 + esize l + esize r"
  using MathOperation_negative_size [of env l op r]
  by (auto simp: MathOperation_fold_def split: expr.splits literal.splits if_splits sum.splits)

lemma Comparison_invert_size:
  "Comparison_invert env l c r = Inr x \<Longrightarrow> esize x \<le> 2 + esize l + esize r"
  using Comparison_optimize_size [of env l NE r x] Comparison_optimize_size [of env l EQ r x]
  by (auto simp: Comparison_invert_def split: if_splits)

lemma collect_size:
  "collect (map f xs) = Inr ys \<Longrightarrow>
   (\<And>x y. x \<in> set xs \<Longrightarrow> f x = Inr y \<Longrightarrow> esize y \<le> esize x) \<Longrightarrow>
   sum_list (map esize ys) \<le> sum_list (map esize xs)"
proof (induction xs arbitrary: ys)
  case Nil
  then show ?case by simp
next
  case (Cons x xs)
  from Cons.prems(1) obtain y ys' where y: "f x = Inr y" "collect (map f xs) = Inr ys'" "ys = y # ys'"
    by (auto split: sum.splits)
  from Cons.IH [OF y(2)] Cons.prems(2) have "sum_list (map esize ys') \<le> sum_list (map esize xs)"
    by simp
  moreover from Cons.prems(2) [of x y] y(1) have "esize y \<le> esize x" by simp
  ultimately show ?case using y(3) by simp
qed

lemma optimize_dom_size:
  "optimize_dom (env, e) \<Longrightarrow> optimize env e = Inr x \<Longrightarrow> esize x \<le> esize e"
proof (induction env e arbitrary: x rule: optimize.pinduct)
  case (1 env l)
  then show ?case by (simp add: optimize.psimps)
next
  case (2 env d)
  then show ?case by (simp add: optimize.psimps)
next
  case (3 env b p)
  then show ?case by (simp add: optimize.psimps)
next
  case (4 env t ev q)
  then show ?case by (simp add: optimize.psimps)
next
  case (5 env name arguments as_method)
  from "5.prems" "5.hyps" obtain args' where
    a: "collect (map (optimize env) arguments) = Inr args'"
    and f: "FunctionCall_fold env name args' as_method = Inr x"
    by (auto simp: optimize.psimps split: sum.splits)
  from collect_size [OF a] "5.IH"
  have "sum_list (map esize args') \<le> sum_list (map esize arguments)" by blast
  with FunctionCall_fold_size [OF f] show ?case by simp
next
  case (6 env left op right)
  from "6.prems" "6.hyps" obtain l' r' where
    l: "optimize env left = Inr l'" and r: "optimize env right = Inr r'"
    and f: "MathOperation_fold env l' op r' = Inr x"
    by (auto simp: optimize.psimps split: sum.splits)
  from "6.IH"(1) [OF l] "6.IH"(2) [OF l r] MathOperation_fold_size [OF f]
  show ?case by simp
next
  case (7 env left c right)
  then show ?case using Comparison_optimize_size [of env left c right x]
    by (simp add: optimize.psimps)
next
  case (8 env expression container)
  then show ?case using InSet_optimize_size [of env expression container x]
    by (simp add: optimize.psimps)
next
  case (9 env "term")
  from "9.prems" "9.hyps" obtain t' where t: "optimize env term = Inr t'"
    by (auto simp: optimize.psimps split: sum.splits)
  note sz = "9.IH"(1) [OF t]
  show ?case
  proof (cases t')
    case (Literal l)
    with "9.prems" "9.hyps" t show ?thesis
      by (auto simp: optimize.psimps Literal_invert_def)
  next
    case (Comparison l c r)
    with "9.prems" "9.hyps" t have "Comparison_invert env l c r = Inr x"
      by (simp add: optimize.psimps)
    from Comparison_invert_size [OF this] sz Comparison show ?thesis by simp
  next
    case (Not_node u)
    with "9.prems" "9.hyps" t have "optimize env u = Inr x"
      by (simp add: optimize.psimps)
    from "9.IH"(2) [OF t Not_node this] sz Not_node show ?thesis by simp
  qed (use "9.prems" "9.hyps" t sz in \<open>auto simp: optimize.psimps\<close>)
next
  case (10 env terms)
  then show ?case using And_optimize_size [of env terms x]
    by (simp add: optimize.psimps)
next
  case (11 env terms)
  then show ?case using Or_optimize_size [of env terms x]
    by (simp add: optimize.psimps)
qed

lemma member_esize: "a \<in> set as \<Longrightarrow> esize a \<le> sum_list (map esize as)"
  by (induction as) auto

termination optimize
proof (relation "measure (\<lambda>(env, e). esize e)", goal_cases)
  case 1
  then show ?case by simp
next
  case (2 env name arguments as_method a)
  then show ?case using member_esize [of a arguments] by simp
next
  case (3 env left op right)
  then show ?case by simp
next
  case (4 env left op right l')
  then show ?case by simp
next
  case (5 env "term")
  then show ?case by simp
next
  case (6 env "term" t' u)
  from optimize_dom_size [OF 6(3) 6(1)] 6(2) show ?case by simp
qed

text \<open>
  The model against the source, where it was written differently: \<^verbatim>\<open>Not.optimize\<close> is
  \<^verbatim>\<open>~ self.term.optimize()\<close>, and the node whose \<^verbatim>\<open>optimize\<close> \<^verbatim>\<open>InSet.__and__\<close> calls for a
  comparison is the \<^verbatim>\<open>And\<close> of two terms that \<^verbatim>\<open>super().__and__\<close> returns.
\<close>

lemma optimize_Not_invert:
  "optimize env (Not_node t) =
     (case optimize env t of Inl e \<Rightarrow> Inl e | Inr t' \<Rightarrow> invert env t')"
  by (simp add: invert_def split: sum.splits expr.splits)

lemma super_and_InSet:
  "Expression_and env self (InSet l [r]) = And [self, InSet l [r]]"
  "Expression_and env self (Not_node (InSet l [r])) = And [self, Not_node (InSet l [r])]"
  "optimize env (And [self, other]) = And_optimize env [self, other]"
  by (simp_all add: Expression_and_def)

section \<open>Properties of the program\<close>

subsection \<open>Arithmetic folding\<close>


subsection \<open>Constructors of literals\<close>

text \<open>
  Claim C6, as stated, fails: \<^verbatim>\<open>Null(5)\<close> is not rejected. \<^verbatim>\<open>Null.__init__\<close> drops its
  argument and the object holds \<^verbatim>\<open>None\<close>.
\<close>

theorem Null_init_counterexample:
  "Null_init (VNum (PInt 5) :: unit pyval) = Inr (NullC, VNone)"
  by (simp add: Null_init_def Literal_init_def)

text \<open>
  Claim C6, amended. Constructing the base class \<^verbatim>\<open>Literal\<close> raises \<^verbatim>\<open>TypeError\<close>, and no
  other literal class does; constructing \<^verbatim>\<open>Null\<close> with any value, null or not, succeeds
  and gives a \<^verbatim>\<open>Null\<close> holding \<^verbatim>\<open>None\<close>.
\<close>

theorem Literal_init_rejects_base_only:
  "Null_init v = Inr (NullC, VNone)
   \<and> Literal_init LiteralC v = Inl TypeError
   \<and> Literal_init cls v = (if cls = LiteralC then Inl TypeError else Inr (cls, v))"
  by (simp add: Null_init_def Literal_init_def)

subsection \<open>\<^verbatim>\<open>|\<close> with a falsy literal\<close>

text \<open>
  Claim C4 does not hold of the code: for a field \<open>e\<close>, \<^verbatim>\<open>e | Boolean(False)\<close> is
  \<^verbatim>\<open>Or([e, Boolean(False)])\<close>, not \<open>e\<close>, and optimizing that \<^verbatim>\<open>Or\<close> returns it unchanged.
\<close>

theorem or_false_literal_kept:
  "op_or env (Field_node b p) (Bool_node False) = Inr (Or [Field_node b p, Bool_node False])
   \<and> optimize env (Or [Field_node b p, Bool_node False])
       = Inr (Or [Field_node b p, Bool_node False])"
  by (simp add: op_or_def Expression_or_def Or_optimize_def)

subsection \<open>Rendering a time range\<close>







subsection \<open>Macro expansion\<close>




subsection \<open>\<^verbatim>\<open>And.optimize\<close> and \<^verbatim>\<open>Or.optimize\<close> on two terms\<close>

lemma butlast_last_two: "2 \<le> length ts \<Longrightarrow> butlast ts \<noteq> [] \<and> butlast ts @ [last ts] = ts"
  by (cases ts rule: rev_cases) (auto simp: Suc_le_eq)

lemma And_optimize_pair:
  "And_optimize env [a, b] =
     (case op_and env a b of
        Inl e \<Rightarrow> Inl e
      | Inr r \<Rightarrow>
          (case r of
             And ts \<Rightarrow>
               (if ts = [] then Inl IndexError
                else if butlast ts = [] then Inr (last ts)
                else Inr (And (butlast ts @ [last ts])))
           | _ \<Rightarrow> Inr r))"
  by (simp add: And_optimize.simps split: sum.splits expr.splits)

lemma Or_optimize_pair:
  "Or_optimize env [a, b] =
     (case op_or env a b of
        Inl e \<Rightarrow> Inl e
      | Inr r \<Rightarrow>
          (case r of
             Or ts \<Rightarrow>
               (if ts = [] then Inl IndexError
                else if butlast ts = [] then Inr (last ts)
                else Inr (Or (butlast ts @ [last ts])))
           | _ \<Rightarrow> Inr r))"
  by (simp add: Or_optimize_def split: sum.splits expr.splits)

text \<open>
  Claim C1, as stated, fails: \<^verbatim>\<open>And.optimize\<close> combines its terms as they are, without
  optimizing them. \<^verbatim>\<open>And([1 == 1, y]).optimize()\<close> is the same \<^verbatim>\<open>And\<close>, while
  \<^verbatim>\<open>(1 == 1).optimize() & y.optimize()\<close> is \<^verbatim>\<open>Boolean(True) & y\<close>, which is \<open>y\<close>.
\<close>

theorem And_optimize_counterexample:
  "optimize plain_env
     (And [Comparison (Literal (Number (PInt 1))) EQ (Literal (Number (PInt 1))), Field_node ''y'' []])
     = Inr (And [Comparison (Literal (Number (PInt 1))) EQ (Literal (Number (PInt 1))),
                 Field_node ''y'' []])
   \<and> optimize plain_env (Comparison (Literal (Number (PInt 1))) EQ (Literal (Number (PInt 1))))
     = Inr (Bool_node True)
   \<and> optimize plain_env (Field_node ''y'' []) = Inr (Field_node ''y'' [])
   \<and> op_and plain_env (Bool_node True) (Field_node ''y'' []) = Inr (Field_node ''y'' [])"
  by (simp add: And_optimize.simps op_and.simps Comparison_and.simps Expression_and_def
      Literal_and_def Comparison_optimize_def Comparison_literals_def py_compare_def)

text \<open>
  Claim C1, amended. \<^verbatim>\<open>And([a, b]).optimize()\<close> is \<^verbatim>\<open>a & b\<close>, the combination of the two
  terms as given, when \<^verbatim>\<open>a & b\<close> is not an \<^verbatim>\<open>And\<close> of fewer than two terms; when \<^verbatim>\<open>a & b\<close>
  is an \<^verbatim>\<open>And\<close> of the single term \<open>t\<close>, it is \<open>t\<close>. The same holds of \<^verbatim>\<open>Or\<close> and \<^verbatim>\<open>|\<close>.
\<close>

theorem compound_optimize_pair:
  "(op_and env a b = Inr r \<and> (\<forall>ts. r = And ts \<longrightarrow> 2 \<le> length ts) \<longrightarrow>
      optimize env (And [a, b]) = Inr r)
   \<and> (op_and env a b = Inr (And [t]) \<longrightarrow> optimize env (And [a, b]) = Inr t)
   \<and> (op_or env a b = Inr r' \<and> (\<forall>ts. r' = Or ts \<longrightarrow> 2 \<le> length ts) \<longrightarrow>
      optimize env (Or [a, b]) = Inr r')
   \<and> (op_or env a b = Inr (Or [t']) \<longrightarrow> optimize env (Or [a, b]) = Inr t')"
proof (intro conjI impI)
  assume "op_and env a b = Inr r \<and> (\<forall>ts. r = And ts \<longrightarrow> 2 \<le> length ts)"
  then show "optimize env (And [a, b]) = Inr r"
    using butlast_last_two by (cases r) (auto simp: And_optimize_pair)
next
  assume "op_and env a b = Inr (And [t])"
  then show "optimize env (And [a, b]) = Inr t" by (simp add: And_optimize_pair)
next
  assume "op_or env a b = Inr r' \<and> (\<forall>ts. r' = Or ts \<longrightarrow> 2 \<le> length ts)"
  then show "optimize env (Or [a, b]) = Inr r'"
    using butlast_last_two by (cases r') (auto simp: Or_optimize_pair)
next
  assume "op_or env a b = Inr (Or [t'])"
  then show "optimize env (Or [a, b]) = Inr t'" by (simp add: Or_optimize_pair)
qed

theorem compound_optimize_pair_witness:
  "optimize plain_env (And [Field_node ''x'' [], Field_node ''y'' []])
     = Inr (And [Field_node ''x'' [], Field_node ''y'' []])
   \<and> optimize plain_env (And [Field_node ''x'' [], And []]) = Inr (Field_node ''x'' [])
   \<and> optimize plain_env (Or [Field_node ''x'' [], Field_node ''y'' []])
     = Inr (Or [Field_node ''x'' [], Field_node ''y'' []])
   \<and> optimize plain_env (Or [Field_node ''x'' [], Or []]) = Inr (Field_node ''x'' [])"
proof -
  have 1: "op_and plain_env (Field_node ''x'' []) (Field_node ''y'' [])
            = Inr (And [Field_node ''x'' [], Field_node ''y'' []])"
    by (simp add: op_and.simps Expression_and_def)
  have 2: "op_and plain_env (Field_node ''x'' []) (And []) = Inr (And [Field_node ''x'' []])"
    by (simp add: op_and.simps Expression_and_def)
  have 3: "op_or plain_env (Field_node ''x'' []) (Field_node ''y'' [])
            = Inr (Or [Field_node ''x'' [], Field_node ''y'' []])"
    by (simp add: op_or_def Expression_or_def)
  have 4: "op_or plain_env (Field_node ''x'' []) (Or []) = Inr (Or [Field_node ''x'' []])"
    by (simp add: op_or_def Expression_or_def)
  from 1 3 compound_optimize_pair
    [of plain_env "Field_node ''x'' []" "Field_node ''y'' []"
        "And [Field_node ''x'' [], Field_node ''y'' []]" "Field_node ''x'' []"
        "Or [Field_node ''x'' [], Field_node ''y'' []]" "Field_node ''x'' []"]
  have a: "optimize plain_env (And [Field_node ''x'' [], Field_node ''y'' []])
       = Inr (And [Field_node ''x'' [], Field_node ''y'' []])
     \<and> optimize plain_env (Or [Field_node ''x'' [], Field_node ''y'' []])
       = Inr (Or [Field_node ''x'' [], Field_node ''y'' []])"
    by simp
  from 2 compound_optimize_pair
    [of plain_env "Field_node ''x'' []" "And []" "And [Field_node ''x'' []]" "Field_node ''x'' []"
        "Or [Field_node ''x'' []]" "Field_node ''x'' []"]
  have b: "optimize plain_env (And [Field_node ''x'' [], And []]) = Inr (Field_node ''x'' [])"
    by simp
  from 4 compound_optimize_pair
    [of plain_env "Field_node ''x'' []" "Or []" "And [Field_node ''x'' []]" "Field_node ''x'' []"
        "Or [Field_node ''x'' []]" "Field_node ''x'' []"]
  have c: "optimize plain_env (Or [Field_node ''x'' [], Or []]) = Inr (Field_node ''x'' [])"
    by simp
  from a b c show ?thesis by simp
qed

subsection \<open>\<^verbatim>\<open>optimize\<close> and the node it is called on\<close>

text \<open>
  Claim C3 does not hold of the code: optimizing \<^verbatim>\<open>And([And([p]), q])\<close> returns
  \<^verbatim>\<open>And([p, q])\<close> and leaves the node that was optimized as \<^verbatim>\<open>And([And([p, q]), q])\<close>: the
  inner terms list was extended in place by \<^verbatim>\<open>And.__and__\<close>.
\<close>

theorem optimize_mutates_shared_terms:
  "tree_of 2 shared_example (NAnd 1)
     = Some (And [And [Field_node ''p'' []], Field_node ''q'' []])
   \<and> optimize_then_read 2 plain_env (NAnd 1) shared_example
     = Inr (Some (And [Field_node ''p'' [], Field_node ''q'' []]),
            Some (And [And [Field_node ''p'' [], Field_node ''q'' []], Field_node ''q'' []]))"
  by (simp add: shared_example_def optimize_then_read_def h_optimize_def h_And_optimize_def
      h_op_and_def h_And_and_def numeral_2_eq_2)

subsection \<open>\<^verbatim>\<open>InSet.optimize\<close>: one literal per value\<close>

lemma lower_A: "lower ''A'' = ''a''" "lower ''a'' = ''a''"
  by (simp_all add: lower_def lower_char_def)

lemma get_literals_A_a:
  "get_literals env [Literal (String ''A''), Literal (String ''a'')] = [(VStr ''a'', String ''A'')]"
  by (simp add: get_literals_def od_setdefault_def od_contains_def lower_A)





text \<open>
  The excluded expression: a \<^verbatim>\<open>Boolean\<close> holding \<^verbatim>\<open>"a"\<close> is found in the set, yet differs
  in class from the string.
\<close>

lemma InSet_dedup_Boolean_of_string:
  "optimize env (InSet (Literal (Boolean (VStr ''a''))) [Literal (String ''A''), Literal (String ''a'')])
     = Inr (Bool_node True)
   \<and> optimize env (Comparison (Literal (Boolean (VStr ''a''))) EQ (Literal (String ''A'')))
     = Inr (Bool_node False)"
  by (simp add: InSet_optimize_def InSet_container_def get_literals_A_a od_contains_def
      Comparison_optimize_def Comparison_literals_def lower_A)


lemma node_eq_not_literal: "\<not> is_Literal f \<Longrightarrow> node_eq env f (Literal l) = False"
  by (cases f) simp_all





subsection \<open>Optimizing twice\<close>

lemma optimize_size: "optimize env e = Inr x \<Longrightarrow> esize x \<le> esize e"
proof (induction env e arbitrary: x rule: optimize.induct)
  case (5 env name arguments as_method)
  from "5.prems" obtain args' where
    a: "collect (map (optimize env) arguments) = Inr args'"
    and f: "FunctionCall_fold env name args' as_method = Inr x"
    by (auto split: sum.splits)
  from collect_size [OF a] "5.IH"
  have "sum_list (map esize args') \<le> sum_list (map esize arguments)" by blast
  with FunctionCall_fold_size [OF f] show ?case by simp
next
  case (6 env left op right)
  from "6.prems" obtain l' r' where
    l: "optimize env left = Inr l'" and r: "optimize env right = Inr r'"
    and f: "MathOperation_fold env l' op r' = Inr x"
    by (auto split: sum.splits)
  from "6.IH"(1) [OF l] "6.IH"(2) [OF l r] MathOperation_fold_size [OF f]
  show ?case by simp
next
  case (7 env left c right)
  then show ?case using Comparison_optimize_size [of env left c right x] by simp
next
  case (8 env expression container)
  then show ?case using InSet_optimize_size [of env expression container x] by simp
next
  case (9 env "term")
  from "9.prems" obtain t' where t: "optimize env term = Inr t'"
    by (auto split: sum.splits)
  note sz = "9.IH"(1) [OF t]
  show ?case
  proof (cases t')
    case (Literal l)
    with "9.prems" t show ?thesis by (auto simp: Literal_invert_def)
  next
    case (Comparison l c r)
    with "9.prems" t have "Comparison_invert env l c r = Inr x" by simp
    from Comparison_invert_size [OF this] sz Comparison show ?thesis by simp
  next
    case (Not_node u)
    with "9.prems" t have "optimize env u = Inr x" by simp
    from "9.IH"(2) [OF t Not_node this] sz Not_node show ?thesis by simp
  qed (use "9.prems" t sz in auto)
next
  case (10 env terms)
  then show ?case using And_optimize_size [of env terms x] by simp
next
  case (11 env terms)
  then show ?case using Or_optimize_size [of env terms x] by simp
qed simp_all

lemma get_literals_step_key:
  "get_literals_step env (Literal l) d =
     (if is_String l then od_setdefault env d (literal_key l) l else od_setitem env d (literal_key l) l)"
  by (simp add: literal_key_def)

lemma od_contains_iff: "od_contains env d k = (\<exists>k' \<in> set (map fst d). py_eq env k' k)"
  by (induction d) (auto simp: od_contains_def)

lemma od_setitem_new:
  "\<not> od_contains env d k \<Longrightarrow> od_setitem env d k v = d @ [(k, v)]"
  by (induction d) (auto simp: od_contains_def)

lemma od_setitem_keys: "od_contains env d k \<Longrightarrow> map fst (od_setitem env d k v) = map fst d"
  by (induction d) (auto simp: od_contains_def)

lemma keyed_append: "keyed env (d @ [(literal_key l, l)]) = keyed env d"
  by (simp add: keyed_def)

lemma keyed_setitem: "keyed env d \<Longrightarrow> keyed env (od_setitem env d (literal_key l) l)"
  by (induction d) (auto simp: keyed_def)

lemma distinct_keys_append:
  "distinct_keys env (ks @ [k]) = (distinct_keys env ks \<and> list_all (\<lambda>k'. \<not> py_eq env k' k) ks)"
  by (induction ks) auto

lemma step_invariant:
  assumes "keyed env d" "distinct_keys env (map fst d)"
  shows "keyed env (get_literals_step env x d) \<and> distinct_keys env (map fst (get_literals_step env x d))"
proof (cases x)
  case (Literal l)
  show ?thesis
  proof (cases "od_contains env d (literal_key l)")
    case True
    with assms Literal keyed_setitem [OF assms(1), of l] od_setitem_keys [OF True, of l]
    show ?thesis by (simp add: get_literals_step_key od_setdefault_def del: get_literals_step.simps)
  next
    case False
    then have "list_all (\<lambda>k'. \<not> py_eq env k' (literal_key l)) (map fst d)"
      by (auto simp: od_contains_iff list_all_iff)
    with assms Literal False od_setitem_new [OF False, of l]
    show ?thesis
      by (simp add: get_literals_step_key od_setdefault_def keyed_append distinct_keys_append
          del: get_literals_step.simps)
  qed
qed (use assms in simp_all)

lemma fold_invariant:
  "keyed env d \<Longrightarrow> distinct_keys env (map fst d) \<Longrightarrow>
   keyed env (fold (get_literals_step env) cs d)
   \<and> distinct_keys env (map fst (fold (get_literals_step env) cs d))"
proof (induction cs arbitrary: d)
  case Nil
  then show ?case by simp
next
  case (Cons x cs)
  from step_invariant [OF Cons.prems, of x] Cons.IH show ?case by simp
qed

lemma get_literals_invariant:
  "keyed env (get_literals env cs) \<and> distinct_keys env (map fst (get_literals env cs))"
  using fold_invariant [of env "[]" cs] by (simp add: get_literals_def keyed_def)

lemma fold_fresh:
  "distinct_keys env (map fst acc @ map literal_key vs) \<Longrightarrow>
   fold (get_literals_step env) (map Literal vs) acc = acc @ map (\<lambda>v. (literal_key v, v)) vs"
proof (induction vs arbitrary: acc)
  case Nil
  then show ?case by simp
next
  case (Cons v vs)
  have dk: "distinct_keys env (ks @ k # ks') \<Longrightarrow> list_all (\<lambda>k'. \<not> py_eq env k' k) ks" for ks k ks'
    by (induction ks) auto
  from Cons.prems dk [of "map fst acc" "literal_key v" "map literal_key vs"]
  have "\<not> od_contains env acc (literal_key v)"
    by (auto simp: od_contains_iff list_all_iff)
  then have st: "get_literals_step env (Literal v) acc = acc @ [(literal_key v, v)]"
    by (simp add: get_literals_step_key od_setdefault_def od_setitem_new del: get_literals_step.simps)
  from Cons.prems have "distinct_keys env (map fst (acc @ [(literal_key v, v)]) @ map literal_key vs)"
    by simp
  from Cons.IH [OF this] st show ?case by simp
qed

lemma eq_sym_transD:
  assumes "eq_sym_trans env"
  shows "py_eq env a b \<Longrightarrow> py_eq env b a"
    and "py_eq env a b \<Longrightarrow> py_eq env b c \<Longrightarrow> py_eq env a c"
  using assms unfolding eq_sym_trans_def by blast+

lemma keyed_Cons:
  "keyed env (kv # d) =
     ((fst kv = literal_key (snd kv) \<or> py_eq env (fst kv) (literal_key (snd kv))) \<and> keyed env d)"
  by (simp add: keyed_def)

lemma keyed_member:
  "keyed env d \<Longrightarrow> kv \<in> set d \<Longrightarrow>
   fst kv = literal_key (snd kv) \<or> py_eq env (fst kv) (literal_key (snd kv))"
  unfolding keyed_def list_all_iff by blast

lemma distinct_keys_of_values:
  assumes st: "eq_sym_trans env"
  shows "keyed env d \<Longrightarrow> distinct_keys env (map fst d) \<Longrightarrow>
         distinct_keys env (map (\<lambda>kv. literal_key (snd kv)) d)"
proof (induction d)
  case Nil
  then show ?case by simp
next
  case (Cons kv d)
  note sym = eq_sym_transD(1) [OF st] and trans = eq_sym_transD(2) [OF st]
  from Cons.prems(1) have k1: "fst kv = literal_key (snd kv) \<or> py_eq env (fst kv) (literal_key (snd kv))"
    and kd: "keyed env d"
    by (simp_all add: keyed_Cons)
  from Cons.prems(2) have nes: "list_all (\<lambda>k'. \<not> py_eq env (fst kv) k') (map fst d)"
    and dd: "distinct_keys env (map fst d)"
    by simp_all
  have fresh: "\<not> py_eq env (literal_key (snd kv)) (literal_key (snd kv'))" if m: "kv' \<in> set d" for kv'
  proof
    assume e: "py_eq env (literal_key (snd kv)) (literal_key (snd kv'))"
    from keyed_member [OF kd m]
    have k2: "fst kv' = literal_key (snd kv') \<or> py_eq env (fst kv') (literal_key (snd kv'))" .
    from nes m have ne: "\<not> py_eq env (fst kv) (fst kv')"
      unfolding list_all_iff by simp
    have a: "py_eq env (fst kv) (literal_key (snd kv'))"
    proof (cases "fst kv = literal_key (snd kv)")
      case True
      with e show ?thesis by simp
    next
      case False
      with k1 have "py_eq env (fst kv) (literal_key (snd kv))" by simp
      from trans [OF this e] show ?thesis .
    qed
    have "py_eq env (fst kv) (fst kv')"
    proof (cases "fst kv' = literal_key (snd kv')")
      case True
      with a show ?thesis by simp
    next
      case False
      with k2 have "py_eq env (fst kv') (literal_key (snd kv'))" by simp
      from trans [OF a sym [OF this]] show ?thesis .
    qed
    with ne show False by simp
  qed
  have "list_all (\<lambda>k'. \<not> py_eq env (literal_key (snd kv)) k') (map (\<lambda>kv. literal_key (snd kv)) d)"
    unfolding list_all_iff using fresh by auto
  with Cons.IH [OF kd dd] show ?case by simp
qed

lemma get_literals_again:
  assumes "eq_sym_trans env"
  shows "map snd (get_literals env (map (\<lambda>kv. Literal (snd kv)) (get_literals env cs)))
         = map snd (get_literals env cs)"
proof -
  let ?d = "get_literals env cs"
  from get_literals_invariant [of env cs] distinct_keys_of_values [OF assms, of ?d]
  have "distinct_keys env (map fst [] @ map literal_key (map snd ?d))"
    by (simp add: comp_def)
  from fold_fresh [OF this] show ?thesis
    by (simp add: get_literals_def comp_def)
qed

lemma fold_dynamic:
  "list_all (\<lambda>v. \<not> is_Literal v) ds \<Longrightarrow> fold (get_literals_step env) ds acc = acc"
proof (induction ds arbitrary: acc)
  case Nil
  then show ?case by simp
next
  case (Cons x ds)
  then show ?case by (cases x) auto
qed

lemma get_literals_append_dynamic:
  "list_all (\<lambda>v. \<not> is_Literal v) ds \<Longrightarrow> get_literals env (ls @ ds) = get_literals env ls"
  by (simp add: get_literals_def fold_dynamic)

lemma Comparison_optimize_again:
  assumes "Comparison_optimize env l c r = Inr y"
  shows "optimize env y = Inr y"
proof -
  from Comparison_optimize_shape [OF assms] consider "is_Literal y" | "y = Comparison l c r" by blast
  then show ?thesis
  proof cases
    case 1
    then show ?thesis by (cases y) auto
  next
    case 2
    with assms show ?thesis by simp
  qed
qed

lemma filter_dynamic_all: "list_all (\<lambda>v. \<not> is_Literal v) (filter (\<lambda>v. \<not> is_Literal v) cs)"
  by (simp add: list_all_iff)

lemma filter_literal_nodes: "filter (\<lambda>v. \<not> is_Literal v) (map (\<lambda>kv. Literal (snd kv)) d) = []"
  by (induction d) auto

lemma InSet_container_again:
  assumes st: "eq_sym_trans env" and c: "InSet_container env e cs = Some c"
  shows "InSet_container env e c = Some c"
proof -
  let ?dyn = "filter (\<lambda>v. \<not> is_Literal v) cs"
  let ?lits = "map (\<lambda>kv. Literal (snd kv)) (get_literals env cs)"
  show ?thesis
  proof (cases "is_Literal e")
    case True
    then obtain l where l: "e = Literal l" by (cases e) auto
    with c have cd: "c = ?dyn" by (auto simp: InSet_container_def Let_def split: if_splits)
    have "get_literals env ?dyn = []"
      using fold_dynamic [OF filter_dynamic_all, of env cs "[]"]
      by (simp add: get_literals_def)
    with l cd show ?thesis by (simp add: InSet_container_def od_contains_def)
  next
    case False
    with c have cd: "c = ?lits @ ?dyn" by (cases e) (auto simp: InSet_container_def Let_def)
    have g: "get_literals env (?lits @ ?dyn) = get_literals env ?lits"
      by (rule get_literals_append_dynamic [OF filter_dynamic_all])
    have ml: "map (\<lambda>kv. Literal (snd kv)) d = map Literal (map snd d)" for d :: "'a odict"
      by simp
    have "map (\<lambda>kv. Literal (snd kv)) (get_literals env ?lits) = ?lits"
      unfolding ml [of "get_literals env cs"] ml [of "get_literals env (map Literal (map snd (get_literals env cs)))"]
      using get_literals_again [OF st, of cs] unfolding ml [of "get_literals env cs"]
      by (rule arg_cong)
    with False cd g show ?thesis
      by (cases e) (simp_all add: InSet_container_def filter_literal_nodes)
  qed
qed

lemma InSet_optimize_again:
  assumes st: "eq_sym_trans env" and y: "InSet_optimize env e cs = Inr y"
  shows "optimize env y = Inr y"
proof (cases "InSet_container env e cs")
  case None
  with y show ?thesis by (auto simp: InSet_optimize_def)
next
  case (Some c)
  note again = InSet_container_again [OF st Some]
  show ?thesis
  proof (cases "length c = 1")
    case True
    with y Some have "Comparison_optimize env e EQ (c ! 0) = Inr y"
      by (simp add: InSet_optimize_def)
    then show ?thesis by (rule Comparison_optimize_again)
  next
    case False
    show ?thesis
    proof (cases "length c = 0 \<or> node_in env e c")
      case True
      with y Some False show ?thesis by (auto simp: InSet_optimize_def split: if_splits)
    next
      case False
      with y Some \<open>length c \<noteq> 1\<close> have "y = InSet e c"
        by (auto simp: InSet_optimize_def split: if_splits)
      with False \<open>length c \<noteq> 1\<close> again show ?thesis
        by (simp add: InSet_optimize_def)
    qed
  qed
qed

lemma collect_fixed:
  "collect (map f xs) = Inr ys \<Longrightarrow>
   (\<And>x y. x \<in> set xs \<Longrightarrow> f x = Inr y \<Longrightarrow> f y = Inr y \<and> P y) \<Longrightarrow>
   collect (map f ys) = Inr ys \<and> list_all P ys"
proof (induction xs arbitrary: ys)
  case Nil
  then show ?case by simp
next
  case (Cons x xs)
  from Cons.prems(1) obtain y ys' where y: "f x = Inr y" "collect (map f xs) = Inr ys'" "ys = y # ys'"
    by (auto split: sum.splits)
  have "collect (map f ys') = Inr ys' \<and> list_all P ys'"
  proof (rule Cons.IH [OF y(2)])
    fix x' y' assume "x' \<in> set xs" "f x' = Inr y'"
    then show "f y' = Inr y' \<and> P y'" using Cons.prems(2) [of x' y'] by simp
  qed
  moreover from Cons.prems(2) [of x y] y(1) have "f y = Inr y \<and> P y" by simp
  ultimately show ?case using y(3) by simp
qed

lemma FunctionCall_fold_again:
  assumes "FunctionCall_fold env n as m = Inr y" "collect (map (optimize env) as) = Inr as" "list_all plain as"
  shows "optimize env y = Inr y \<and> plain y"
proof (cases "y = FunctionCall n as m")
  case True
  with assms show ?thesis by simp
next
  case False
  with assms(1) have "is_Literal y"
    by (auto simp: FunctionCall_fold_def split: option.splits if_splits run_result.splits)
  then show ?thesis by (cases y) auto
qed

lemma MathOperation_fold_cases:
  assumes "MathOperation_fold env l op r = Inr y"
  shows "(foldable env l op r \<and> is_Literal y)
         \<or> (\<not> foldable env l op r \<and> y = MathOperation_negative env l op r)"
  using assms
  by (auto simp: MathOperation_fold_def foldable_def split: expr.splits literal.splits sum.splits if_splits)

lemma MathOperation_fold_not_foldable:
  "\<not> foldable env l op r \<Longrightarrow> MathOperation_fold env l op r = Inr (MathOperation_negative env l op r)"
  by (auto simp: MathOperation_fold_def foldable_def split: expr.splits literal.splits)

lemma MathOperation_negative_plain:
  "\<not> negative_shape env op r \<Longrightarrow> MathOperation_negative env l op r = MathOperation l op r"
  by (auto simp: MathOperation_negative_def negative_shape_def split: expr.splits)

lemma node_eq_zero: "node_eq env rl (Literal (Number (PInt 0))) \<Longrightarrow> \<exists>n. rl = Literal (Number n)"
  by (cases rl) (auto elim: literal_eq.elims)

lemma negative_shape_cases:
  assumes "negative_shape env op r"
  obtains n rop rr where "r = MathOperation (Literal (Number n)) rop rr"
    "op = Sub \<or> op = Add" "rop = Sub \<or> rop = Add"
    "MathOperation_negative env l op r = MathOperation l (if (op = Sub) \<noteq> (rop = Sub) then Sub else Add) rr"
proof -
  from assms obtain rl rop rr where r: "r = MathOperation rl rop rr"
    and z: "node_eq env rl (Literal (Number (PInt 0)))" and o: "op = Sub \<or> op = Add" "rop = Sub \<or> rop = Add"
    by (auto simp: negative_shape_def split: expr.splits)
  from node_eq_zero [OF z] obtain n where "rl = Literal (Number n)" by blast
  with r z o that [of n rop rr] show thesis
    by (simp add: MathOperation_negative_def)
qed

lemma negative_inner_fixed:
  assumes r: "optimize env (MathOperation (Literal (Number n)) rop rr) = Inr (MathOperation (Literal (Number n)) rop rr)"
    and o: "rop = Sub \<or> rop = Add"
  shows "optimize env rr = Inr rr \<and> \<not> foldable env l op' rr \<and> (\<forall>op. \<not> negative_shape env op rr)"
proof -
  let ?rl = "Literal (Number n)"
  from r obtain rr1 where rr1: "optimize env rr = Inr rr1"
    and f: "MathOperation_fold env ?rl rop rr1 = Inr (MathOperation ?rl rop rr)"
    by (auto split: sum.splits)
  from MathOperation_fold_cases [OF f]
  have nf: "\<not> foldable env ?rl rop rr1" and neg: "MathOperation_negative env ?rl rop rr1 = MathOperation ?rl rop rr"
    by auto
  have ns: "\<not> negative_shape env rop rr1"
  proof
    assume "negative_shape env rop rr1"
    then obtain m aop b where s: "rr1 = MathOperation (Literal (Number m)) aop b"
      "MathOperation_negative env ?rl rop rr1
         = MathOperation ?rl (if (rop = Sub) \<noteq> (aop = Sub) then Sub else Add) b"
      by (rule negative_shape_cases)
    with neg have "b = rr" by simp
    with s(1) have "esize rr < esize rr1" by simp
    with optimize_size [OF rr1] show False by simp
  qed
  with neg have eq: "rr1 = rr" by (simp add: MathOperation_negative_plain)
  from nf o eq have nn: "\<not> (\<exists>b. rr = Literal (Number b))"
    by (auto simp: foldable_def)
  then have "\<not> foldable env l op' rr"
    by (auto simp: foldable_def split: expr.splits literal.splits)
  moreover from ns eq o have "\<not> negative_shape env op rr" for op
    by (auto simp: negative_shape_def split: expr.splits)
  ultimately show ?thesis using rr1 eq by simp
qed

lemma MathOperation_fold_again:
  assumes l: "optimize env l' = Inr l'" and r: "optimize env r' = Inr r'"
    and p: "plain l'" "plain r'"
    and y: "MathOperation_fold env l' op r' = Inr y"
  shows "optimize env y = Inr y \<and> plain y"
proof -
  from MathOperation_fold_cases [OF y] consider
    (lit) "is_Literal y" | (neg) "\<not> foldable env l' op r'" "y = MathOperation_negative env l' op r'"
    by blast
  then show ?thesis
  proof cases
    case lit
    then show ?thesis by (cases y) auto
  next
    case neg
    show ?thesis
    proof (cases "negative_shape env op r'")
      case True
      then obtain n rop rr where s: "r' = MathOperation (Literal (Number n)) rop rr"
        "rop = Sub \<or> rop = Add"
        "MathOperation_negative env l' op r'
           = MathOperation l' (if (op = Sub) \<noteq> (rop = Sub) then Sub else Add) rr"
        by (rule negative_shape_cases)
      let ?op = "if (op = Sub) \<noteq> (rop = Sub) then Sub else Add"
      from negative_inner_fixed [of env n rop rr l' ?op] r s(1,2)
      have rr: "optimize env rr = Inr rr" "\<not> foldable env l' ?op rr" "\<not> negative_shape env ?op rr"
        by auto
      from neg(2) s(3) have yy: "y = MathOperation l' ?op rr" by simp
      have "optimize env (MathOperation l' ?op rr) = Inr (MathOperation l' ?op rr)"
        using l rr MathOperation_fold_not_foldable [OF rr(2)] MathOperation_negative_plain [OF rr(3)]
        by simp
      moreover from p s(1) have "plain (MathOperation l' ?op rr)" by simp
      ultimately show ?thesis using yy by simp
    next
      case False
      with neg have yy: "y = MathOperation l' op r'" by (simp add: MathOperation_negative_plain)
      with l r y p show ?thesis by simp
    qed
  qed
qed

lemma Comparison_optimize_plain: "Comparison_optimize env l c r = Inr y \<Longrightarrow> plain y"
  using Comparison_optimize_shape [of env l c r y] by (cases y) auto

lemma InSet_optimize_plain:
  assumes "InSet_optimize env e cs = Inr y"
  shows "plain y"
proof (cases "InSet_container env e cs")
  case None
  with assms show ?thesis by (auto simp: InSet_optimize_def)
next
  case (Some c)
  show ?thesis
  proof (cases "length c = 1")
    case True
    with assms Some have "Comparison_optimize env e EQ (c ! 0) = Inr y"
      by (simp add: InSet_optimize_def)
    then show ?thesis by (rule Comparison_optimize_plain)
  next
    case False
    with assms Some show ?thesis
      by (auto simp: InSet_optimize_def split: if_splits)
  qed
qed

lemma Comparison_invert_again:
  assumes t: "optimize env (Comparison l c r) = Inr (Comparison l c r)"
    and y: "Comparison_invert env l c r = Inr y"
  shows "optimize env y = Inr y \<and> plain y"
proof (cases "c = EQ \<or> c = NE")
  case True
  with y obtain c' where c': "Comparison_optimize env l c' r = Inr y"
    by (auto simp: Comparison_invert_def split: if_splits)
  from Comparison_optimize_again [OF c'] Comparison_optimize_plain [OF c']
  show ?thesis by simp
next
  case False
  with y have "y = Not_node (Comparison l c r)"
    by (auto simp: Comparison_invert_def)
  with t False show ?thesis by (simp add: Comparison_invert_def)
qed

lemma optimize_again_plain:
  "eq_sym_trans env \<Longrightarrow> plain e \<Longrightarrow> optimize env e = Inr y \<Longrightarrow>
   optimize env y = Inr y \<and> plain y"
proof (induction env e arbitrary: y rule: optimize.induct)
  case (5 env name arguments as_method)
  from "5.prems" obtain args' where
    a: "collect (map (optimize env) arguments) = Inr args'"
    and f: "FunctionCall_fold env name args' as_method = Inr y"
    by (auto split: sum.splits)
  have "collect (map (optimize env) args') = Inr args' \<and> list_all plain args'"
  proof (rule collect_fixed [OF a])
    fix x y' assume "x \<in> set arguments" "optimize env x = Inr y'"
    with "5.IH" [of x y'] "5.prems"(1,2) show "optimize env y' = Inr y' \<and> plain y'"
      by (simp add: list_all_iff)
  qed
  with FunctionCall_fold_again [OF f] show ?case by simp
next
  case (6 env left op right)
  note st = "6.prems"(1)
  from "6.prems" obtain l' r' where
    l: "optimize env left = Inr l'" and r: "optimize env right = Inr r'"
    and f: "MathOperation_fold env l' op r' = Inr y"
    by (auto split: sum.splits)
  from "6.IH"(1) [OF st _ l] "6.prems"(2) have l': "optimize env l' = Inr l'" "plain l'" by simp_all
  from "6.IH"(2) [OF l st _ r] "6.prems"(2) have r': "optimize env r' = Inr r'" "plain r'" by simp_all
  from MathOperation_fold_again [OF l'(1) r'(1) l'(2) r'(2) f] show ?case .
next
  case (7 env left c right)
  then have c: "Comparison_optimize env left c right = Inr y" by simp
  from Comparison_optimize_again [OF c] Comparison_optimize_plain [OF c]
  show ?case by simp
next
  case (8 env expression container)
  note st = "8.prems"(1)
  from 8 have c: "InSet_optimize env expression container = Inr y" by simp
  from InSet_optimize_again [OF st c] InSet_optimize_plain [OF c]
  show ?case by simp
next
  case (9 env "term")
  note st = "9.prems"(1)
  from "9.prems" obtain t' where t: "optimize env term = Inr t'"
    by (auto split: sum.splits)
  from "9.IH"(1) [OF st _ t] "9.prems"(2) have t': "optimize env t' = Inr t'" "plain t'" by simp_all
  show ?case
  proof (cases t')
    case (Literal l)
    with "9.prems" t show ?thesis by (auto simp: Literal_invert_def)
  next
    case (Comparison l c r)
    with "9.prems" t have "Comparison_invert env l c r = Inr y" by simp
    from Comparison_invert_again [OF _ this] t'(1) Comparison show ?thesis by simp
  next
    case (Not_node u)
    with "9.prems" t have u: "optimize env u = Inr y" by simp
    from t'(2) Not_node have "plain u" by simp
    from "9.IH"(2) [OF t Not_node st this u] show ?thesis .
  qed (use "9.prems" t t' in auto)
qed auto

lemma eq_sym_trans_plain_env: "eq_sym_trans plain_env"
proof -
  have nc: "num_cmp plain_env EQ a b = (a = b)" for a b :: "unit pynum"
    by (cases a; cases b) (simp_all add: plain_env_def)
  have sym: "py_eq plain_env a b \<Longrightarrow> py_eq plain_env b a" for a b :: "unit pyval"
    by (cases a; cases b) (auto simp: nc)
  have trans: "py_eq plain_env a b \<Longrightarrow> py_eq plain_env b c \<Longrightarrow> py_eq plain_env a c"
    for a b c :: "unit pyval"
    by (cases a; cases b; cases c) (auto simp: nc split: if_splits)
  show ?thesis unfolding eq_sym_trans_def using sym trans by blast
qed

text \<open>
  Claim C2, as stated, fails: \<^verbatim>\<open>And([Not(Not(x))]).optimize()\<close> is \<^verbatim>\<open>Not(Not(x))\<close>, the
  single term as it was, and optimizing that gives \<open>x\<close>.
\<close>

theorem optimize_not_idempotent:
  "optimize plain_env (And [Not_node (Not_node (Field_node ''x'' []))])
     = Inr (Not_node (Not_node (Field_node ''x'' [])))
   \<and> optimize plain_env (Not_node (Not_node (Field_node ''x'' []))) = Inr (Field_node ''x'' [])
   \<and> \<not> node_eq plain_env (Field_node ''x'' []) (Not_node (Not_node (Field_node ''x'' [])))"
  by (simp add: And_optimize.simps)

text \<open>
  Claim C2, amended. Where the host's \<^verbatim>\<open>==\<close> on values is symmetric and transitive,
  optimization is idempotent on every node that holds no \<^verbatim>\<open>And\<close> and no \<^verbatim>\<open>Or\<close> at the places
  \<^verbatim>\<open>optimize\<close> descends into: if \<^verbatim>\<open>x.optimize()\<close> returns \<open>y\<close>, then \<^verbatim>\<open>y.optimize()\<close> returns
  \<open>y\<close>.
\<close>

theorem optimize_idempotent_plain:
  assumes "eq_sym_trans env" "plain x" "optimize env x = Inr y"
  shows "optimize env y = Inr y"
  using optimize_again_plain [OF assms] by simp

theorem optimize_idempotent_plain_witness:
  "optimize plain_env
     (Not_node (Not_node (MathOperation (Field_node ''a'' []) Add
        (MathOperation (Literal (Number (PInt 0))) Sub (Field_node ''b'' [])))))
     = Inr (MathOperation (Field_node ''a'' []) Sub (Field_node ''b'' []))
   \<and> optimize plain_env (MathOperation (Field_node ''a'' []) Sub (Field_node ''b'' []))
     = Inr (MathOperation (Field_node ''a'' []) Sub (Field_node ''b'' []))"
proof -
  let ?x = "Not_node (Not_node (MathOperation (Field_node ''a'' []) Add
        (MathOperation (Literal (Number (PInt 0))) Sub (Field_node ''b'' []))))"
  let ?y = "MathOperation (Field_node ''a'' []) Sub (Field_node ''b'' [])"
  have 1: "optimize plain_env ?x = Inr ?y"
    by (simp add: MathOperation_fold_def MathOperation_negative_def)
  have 2: "plain ?x" by simp
  from optimize_idempotent_plain [OF eq_sym_trans_plain_env 2 1] 1 show ?thesis by simp
qed

end
